theory Spec2Isabelle
  imports Complex_Main "HOL-Library.Char_ord" "HOL-Library.List_Lexorder"
begin

section \<open>Errors and arrays\<close>

text \<open>
  The Python exceptions the modelled functions can raise.  A failed \<^verbatim>\<open>assert\<close> is
  \<open>AssertionError\<close>; an index outside an array is \<open>IndexError\<close>; a shape that cannot be
  broadcast and the explicit \<^verbatim>\<open>raise ValueError\<close> of \<^verbatim>\<open>classify.stat\<close> are
  \<open>ValueError\<close>; a size that is not an integer is \<open>TypeError\<close>.
\<close>

datatype error =
  AssertionError | IndexError | ValueError | KeyError | AttributeError | LinAlgError | TypeError

text \<open>
  A numpy array: its shape and its elements in row-major (C) order.  \<open>ndim\<close> is the
  length of the shape.  Entry \<open>(i, j)\<close> of a two-dimensional array of shape \<open>[n, m]\<close> is
  element \<open>i * m + j\<close> of \<open>data\<close>.
\<close>

record 'a ndarray =
  shape :: "nat list"
  data :: "'a list"

definition ndim :: "'a ndarray \<Rightarrow> nat" where
  "ndim a = length (shape a)"

definition wf_array :: "'a ndarray \<Rightarrow> bool" where
  "wf_array a = (length (data a) = prod_list (shape a))"

definition nrows :: "'a ndarray \<Rightarrow> nat" where
  "nrows a = shape a ! 0"

definition ncols :: "'a ndarray \<Rightarrow> nat" where
  "ncols a = shape a ! 1"


definition tabulate2 :: "nat \<Rightarrow> nat \<Rightarrow> (nat \<Rightarrow> nat \<Rightarrow> 'a) \<Rightarrow> 'a ndarray" where
  "tabulate2 n m f = \<lparr>shape = [n, m], data = map (\<lambda>k. f (k div m) (k mod m)) [0..<n * m]\<rparr>"

definition full2 :: "nat \<Rightarrow> nat \<Rightarrow> 'a \<Rightarrow> 'a ndarray" where
  "full2 n m v = \<lparr>shape = [n, m], data = replicate (n * m) v\<rparr>"

definition get2 :: "'a ndarray \<Rightarrow> nat \<Rightarrow> nat \<Rightarrow> 'a" where
  "get2 a i j = data a ! (i * ncols a + j)"

definition set2 :: "'a ndarray \<Rightarrow> nat \<Rightarrow> nat \<Rightarrow> 'a \<Rightarrow> 'a ndarray" where
  "set2 a i j v = a\<lparr>data := (data a)[i * ncols a + j := v]\<rparr>"

section \<open>Doubles\<close>

text \<open>
  A double (\<^verbatim>\<open>float64\<close>): a finite value, an infinity or NaN.  A finite value is the
  real number it stands for; the sign of zero and the payload of a NaN are not kept.  A
  complex double is a pair of doubles.
\<close>

datatype fl = Fin real | PInf | NInf | NaN

record cfl =
  re :: fl
  im :: fl

text \<open>
  Rounding to the nearest double, ties to the even significand.  \<open>ulp_exp r\<close> is the
  exponent of the unit in the last place at \<open>r\<close>: \<open>52\<close> binary places under the leading
  bit, and never under \<open>2\<^sup>-\<^sup>1\<^sup>0\<^sup>7\<^sup>4\<close>, the spacing of the subnormal numbers.  A result that
  rounds to \<open>2\<^sup>1\<^sup>0\<^sup>2\<^sup>4\<close> or more in magnitude overflows to an infinity.
\<close>

definition round_even :: "real \<Rightarrow> int" where
  "round_even r =
     (let f = \<lfloor>r\<rfloor>
      in if r - of_int f < 1 / 2 then f
         else if 1 / 2 < r - of_int f then f + 1
         else if even f then f else f + 1)"

definition ulp_exp :: "real \<Rightarrow> int" where
  "ulp_exp r = max (\<lfloor>log 2 \<bar>r\<bar>\<rfloor> - 52) (- 1074)"

definition rnd :: "real \<Rightarrow> real" where
  "rnd r = (if r = 0 then 0 else of_int (round_even (r / 2 powi ulp_exp r)) * 2 powi ulp_exp r)"

definition to_fl :: "real \<Rightarrow> fl" where
  "to_fl r = (let v = rnd r in if 2 ^ 1024 \<le> v then PInf else if v \<le> - (2 ^ 1024) then NInf else Fin v)"


text \<open>
  Addition and negation of doubles; \<open>a - b\<close> is \<open>a + (- b)\<close>.  The sum of two finite
  doubles is the rounded exact sum; \<open>inf + (- inf)\<close> is NaN, and NaN propagates.
\<close>

fun fl_add :: "fl \<Rightarrow> fl \<Rightarrow> fl" where
  "fl_add (Fin a) (Fin b) = to_fl (a + b)"
| "fl_add NaN _ = NaN"
| "fl_add _ NaN = NaN"
| "fl_add PInf NInf = NaN"
| "fl_add NInf PInf = NaN"
| "fl_add PInf _ = PInf"
| "fl_add _ PInf = PInf"
| "fl_add NInf _ = NInf"
| "fl_add _ NInf = NInf"

fun fl_neg :: "fl \<Rightarrow> fl" where
  "fl_neg (Fin a) = Fin (- a)"
| "fl_neg PInf = NInf"
| "fl_neg NInf = PInf"
| "fl_neg NaN = NaN"

instantiation fl :: "{zero, plus, minus, uminus}"
begin

definition zero_fl :: fl where
  "zero_fl = Fin 0"

definition plus_fl :: "fl \<Rightarrow> fl \<Rightarrow> fl" where
  "plus_fl a b = fl_add a b"

definition uminus_fl :: "fl \<Rightarrow> fl" where
  "uminus_fl a = fl_neg a"

definition minus_fl :: "fl \<Rightarrow> fl \<Rightarrow> fl" where
  "minus_fl a b = fl_add a (fl_neg b)"

instance ..

end


lemma fl_add_commute: "fl_add a b = fl_add b a"
  by (cases a; cases b) (simp_all add: add.commute)



section \<open>Pair indices: \<^verbatim>\<open>get_pairs\<close>\<close>

text \<open>
  \<^verbatim>\<open>np.triu_indices(n, k)\<close> and \<^verbatim>\<open>np.tril_indices(n, k)\<close>: the positions \<open>(i, j)\<close> of an
  \<open>n \<times> n\<close> array with \<open>j - i \<ge> k\<close> (respectively \<open>j - i \<le> k\<close>), in row-major order, as a
  tuple of a row-index and a column-index sequence.
\<close>

definition triu_pairs :: "nat \<Rightarrow> int \<Rightarrow> (nat \<times> nat) list" where
  "triu_pairs n k = [(i, j). i \<leftarrow> [0..<n], j \<leftarrow> [0..<n], int i + k \<le> int j]"

definition tril_pairs :: "nat \<Rightarrow> int \<Rightarrow> (nat \<times> nat) list" where
  "tril_pairs n k = [(i, j). i \<leftarrow> [0..<n], j \<leftarrow> [0..<n], int j \<le> int i + k]"

definition triu_indices :: "nat \<Rightarrow> int \<Rightarrow> nat list \<times> nat list" where
  "triu_indices n k = (map fst (triu_pairs n k), map snd (triu_pairs n k))"

definition tril_indices :: "nat \<Rightarrow> int \<Rightarrow> nat list \<times> nat list" where
  "tril_indices n k = (map fst (tril_pairs n k), map snd (tril_pairs n k))"

text \<open>\<^verbatim>\<open>np.c_[idx]\<close> on a tuple of two index sequences: the \<open>(n_pairs, 2)\<close> array of rows.\<close>

definition c_stack :: "nat list \<times> nat list \<Rightarrow> (nat \<times> nat) list" where
  "c_stack idx = zip (fst idx) (snd idx)"

text \<open>
  The index tuple \<^verbatim>\<open>idx\<close> that \<^verbatim>\<open>get_pairs\<close> builds before it chooses the output form;
  the \<^verbatim>\<open>assert\<close> on \<^verbatim>\<open>part\<close> comes first.
\<close>

definition get_pairs_idx :: "nat \<Rightarrow> string \<Rightarrow> error + (nat list \<times> nat list)" where
  "get_pairs_idx n part =
     (if part \<notin> set [''upper'', ''lower'', ''both''] then Inl AssertionError
      else if part = ''upper'' then Inr (triu_indices n 1)
      else if part = ''lower'' then Inr (tril_indices n (- 1))
      else
        let high = c_stack (triu_indices n 1);
            low = c_stack (tril_indices n (- 1));
            idx' = high @ low
        in Inr (map fst idx', map snd idx'))"

text \<open>The two output forms of \<^verbatim>\<open>get_pairs\<close>, chosen by \<^verbatim>\<open>as_array\<close>.\<close>

datatype pairs_out = PairsArray "(nat \<times> nat) list" | PairsTuple "nat list \<times> nat list"

definition get_pairs :: "nat \<Rightarrow> string \<Rightarrow> bool \<Rightarrow> error + pairs_out" where
  "get_pairs n part as_array =
     (case get_pairs_idx n part of
        Inl e \<Rightarrow> Inl e
      | Inr idx \<Rightarrow> if as_array then Inr (PairsArray (c_stack idx)) else Inr (PairsTuple idx))"

section \<open>Properties of the pair indices\<close>

lemma c_stack_unzip: "c_stack (map fst ps, map snd ps) = ps"
  by (simp add: c_stack_def zip_map_fst_snd)

lemma set_triu_pairs: "set (triu_pairs n 1) = {(i, j). i < j \<and> j < n}"
  by (auto simp: triu_pairs_def)

lemma set_tril_pairs: "set (tril_pairs n (- 1)) = {(i, j). j < i \<and> i < n}"
  by (auto simp: tril_pairs_def)

lemma distinct_concat_map_upt:
  assumes "\<And>i. distinct (f i)" and "\<And>i j. i \<noteq> j \<Longrightarrow> set (f i) \<inter> set (f j) = {}"
  shows "distinct (concat (map f [0..<n]))"
proof (induction n)
  case 0
  show ?case by simp
next
  case (Suc n)
  have "set (f n) \<inter> set (concat (map f [0..<n])) = {}"
    using assms(2) [of n] by fastforce
  then show ?case
    using Suc assms(1) by (simp add: Int_commute)
qed

lemma distinct_row: "distinct (concat (map (\<lambda>j. if P j then [(i, j)] else []) [0..<(n::nat)]))"
  by (rule distinct_concat_map_upt) auto

lemma set_row_fst:
  "p \<in> set (concat (map (\<lambda>j. if P j then [(i, j)] else []) [0..<(n::nat)])) \<Longrightarrow> fst p = i"
  by (auto split: if_splits)

lemma distinct_triu_pairs: "distinct (triu_pairs n k)"
  unfolding triu_pairs_def
proof (rule distinct_concat_map_upt)
  fix i show "distinct (concat (map (\<lambda>j. if int i + k \<le> int j then [(i, j)] else []) [0..<n]))"
    by (rule distinct_row)
next
  fix i i' :: nat assume "i \<noteq> i'"
  then show "set (concat (map (\<lambda>j. if int i + k \<le> int j then [(i, j)] else []) [0..<n])) \<inter>
    set (concat (map (\<lambda>j. if int i' + k \<le> int j then [(i', j)] else []) [0..<n])) = {}"
    by (auto split: if_splits)
qed

lemma distinct_tril_pairs: "distinct (tril_pairs n k)"
  unfolding tril_pairs_def
proof (rule distinct_concat_map_upt)
  fix i show "distinct (concat (map (\<lambda>j. if int j \<le> int i + k then [(i, j)] else []) [0..<n]))"
    by (rule distinct_row)
next
  fix i i' :: nat assume "i \<noteq> i'"
  then show "set (concat (map (\<lambda>j. if int j \<le> int i + k then [(i, j)] else []) [0..<n])) \<inter>
    set (concat (map (\<lambda>j. if int j \<le> int i' + k then [(i', j)] else []) [0..<n])) = {}"
    by (auto split: if_splits)
qed
lemma length_row: "length (concat (map (\<lambda>j. if int i + 1 \<le> int j then [(i, j)] else []) [0..<(n::nat)])) = n - Suc i"
  by (induction n) auto
lemma gauss_double: "2 * (\<Sum>i<n. i) = n * (n - (1::nat))"
proof (induction n)
  case 0 show ?case by simp
next
  case (Suc n)
  then show ?case by (cases n) (simp_all add: algebra_simps)
qed
lemma gauss_lessThan: "(\<Sum>i<n. i) = n * (n - 1) div (2::nat)"
  using gauss_double [of n] by simp
lemma sum_rows: "sum_list (map (\<lambda>i. n - Suc i) [0..<n]) = n * (n - 1) div 2"
proof -
  have "sum_list (map (\<lambda>i. n - Suc i) [0..<n]) = (\<Sum>i<n. n - Suc i)"
    by (simp add: interv_sum_list_conv_sum_set_nat atLeast0LessThan)
  also have "\<dots> = (\<Sum>i<n. i)" by (rule sum.nat_diff_reindex)
  also have "\<dots> = n * (n - 1) div 2" by (rule gauss_lessThan)
  finally show ?thesis .
qed
lemma length_triu: "length (triu_pairs n 1) = n * (n - 1) div 2"
proof -
  have "length (triu_pairs n 1) = sum_list (map (\<lambda>i. n - Suc i) [0..<n])"
    unfolding triu_pairs_def by (subst length_concat) (simp only: map_map comp_def length_row)
  then show ?thesis by (simp only: sum_rows)
qed
lemma c_stack_unzip_append:
  "c_stack (map fst ps @ map fst qs, map snd ps @ map snd qs) = ps @ qs"
  using c_stack_unzip [of "ps @ qs"] by simp
lemma get_pairs_upper: "get_pairs n ''upper'' True = Inr (PairsArray (triu_pairs n 1))"
  by (simp add: get_pairs_def get_pairs_idx_def triu_indices_def c_stack_unzip)
lemma get_pairs_lower: "get_pairs n ''lower'' True = Inr (PairsArray (tril_pairs n (- 1)))"
  by (simp add: get_pairs_def get_pairs_idx_def tril_indices_def c_stack_unzip)
lemma get_pairs_both: "get_pairs n ''both'' True = Inr (PairsArray (triu_pairs n 1 @ tril_pairs n (- 1)))"
  by (simp add: get_pairs_def get_pairs_idx_def triu_indices_def tril_indices_def c_stack_unzip c_stack_unzip_append Let_def)
lemma get_pairs_tuple:
  "get_pairs n part True = Inr (PairsArray ps) \<Longrightarrow> get_pairs n part False = Inr (PairsTuple (map fst ps, map snd ps))"
  by (auto simp: get_pairs_def get_pairs_idx_def triu_indices_def tril_indices_def c_stack_unzip c_stack_unzip_append Let_def split: if_splits)
lemma transpose_set: "set (tril_pairs n (- 1)) = (\<lambda>(i, j). (j, i)) ` set (triu_pairs n 1)"
  unfolding set_triu_pairs set_tril_pairs by force

text \<open>
  Claim C6.  For every \<open>n \<ge> 2\<close>: \<^verbatim>\<open>get_pairs(n, 'upper')\<close> returns exactly the
  \<open>n (n - 1) / 2\<close> pairs \<open>(i, j)\<close> with \<open>i < j\<close>, each once; \<^verbatim>\<open>get_pairs(n, 'lower')\<close>
  returns exactly the transposed set, the pairs with \<open>i > j\<close>; \<^verbatim>\<open>get_pairs(n, 'both')\<close>
  returns the upper pairs followed by the lower pairs; the tuple form holds the same pairs
  as two parallel sequences; and any other \<^verbatim>\<open>part\<close> fails the assertion.
\<close>

theorem get_pairs_spec:
  assumes "2 \<le> n"
  shows "\<exists>up lo.
    get_pairs n ''upper'' True = Inr (PairsArray up) \<and>
    distinct up \<and> set up = {(i, j). i < j \<and> j < n} \<and> length up = n * (n - 1) div 2 \<and>
    get_pairs n ''lower'' True = Inr (PairsArray lo) \<and>
    distinct lo \<and> set lo = {(i, j). j < i \<and> i < n} \<and> set lo = (\<lambda>(i, j). (j, i)) ` set up \<and>
    get_pairs n ''both'' True = Inr (PairsArray (up @ lo)) \<and>
    (\<forall>part ps. get_pairs n part True = Inr (PairsArray ps) \<longrightarrow>
       get_pairs n part False = Inr (PairsTuple (map fst ps, map snd ps))) \<and>
    (\<forall>part as_array. part \<notin> {''upper'', ''lower'', ''both''} \<longrightarrow>
       get_pairs n part as_array = Inl AssertionError)"
proof (intro exI conjI)
  show "get_pairs n ''upper'' True = Inr (PairsArray (triu_pairs n 1))"
    by (rule get_pairs_upper)
  show "get_pairs n ''lower'' True = Inr (PairsArray (tril_pairs n (- 1)))"
    by (rule get_pairs_lower)
  show "get_pairs n ''both'' True = Inr (PairsArray (triu_pairs n 1 @ tril_pairs n (- 1)))"
    by (rule get_pairs_both)
  show "distinct (triu_pairs n 1)" by (rule distinct_triu_pairs)
  show "distinct (tril_pairs n (- 1))" by (rule distinct_tril_pairs)
  show "set (triu_pairs n 1) = {(i, j). i < j \<and> j < n}" by (rule set_triu_pairs)
  show "set (tril_pairs n (- 1)) = {(i, j). j < i \<and> i < n}" by (rule set_tril_pairs)
  show "length (triu_pairs n 1) = n * (n - 1) div 2" by (rule length_triu)
  show "set (tril_pairs n (- 1)) = (\<lambda>(i, j). (j, i)) ` set (triu_pairs n 1)"
    by (rule transpose_set)
  show "\<forall>part ps. get_pairs n part True = Inr (PairsArray ps) \<longrightarrow>
       get_pairs n part False = Inr (PairsTuple (map fst ps, map snd ps))"
    using get_pairs_tuple by blast
  show "\<forall>part as_array. part \<notin> {''upper'', ''lower'', ''both''} \<longrightarrow>
       get_pairs n part as_array = Inl AssertionError"
    by (simp add: get_pairs_def get_pairs_idx_def)
qed

theorem get_pairs_spec_witness:
  "\<exists>up lo. get_pairs 3 ''upper'' True = Inr (PairsArray up) \<and> length up = 3 \<and>
     set up = {(i, j). i < j \<and> j < 3} \<and>
     get_pairs 3 ''both'' True = Inr (PairsArray (up @ lo)) \<and>
     get_pairs 3 ''both'' False = Inr (PairsTuple (map fst (up @ lo), map snd (up @ lo))) \<and>
     get_pairs 3 ''full'' True = Inl AssertionError"
proof -
  have h: "(2::nat) \<le> 3" by simp
  from get_pairs_spec [OF h] obtain up where "\<exists>lo.
    get_pairs 3 ''upper'' True = Inr (PairsArray up) \<and>
    distinct up \<and> set up = {(i, j). i < j \<and> j < 3} \<and> length up = 3 * (3 - 1) div 2 \<and>
    get_pairs 3 ''lower'' True = Inr (PairsArray lo) \<and>
    distinct lo \<and> set lo = {(i, j). j < i \<and> i < 3} \<and> set lo = (\<lambda>(i, j). (j, i)) ` set up \<and>
    get_pairs 3 ''both'' True = Inr (PairsArray (up @ lo)) \<and>
    (\<forall>part ps. get_pairs 3 part True = Inr (PairsArray ps) \<longrightarrow>
       get_pairs 3 part False = Inr (PairsTuple (map fst ps, map snd ps))) \<and>
    (\<forall>part as_array. part \<notin> {''upper'', ''lower'', ''both''} \<longrightarrow>
       get_pairs 3 part as_array = Inl AssertionError)" ..
  then obtain lo where X:
    "get_pairs 3 ''upper'' True = Inr (PairsArray up) \<and>
    distinct up \<and> set up = {(i, j). i < j \<and> j < 3} \<and> length up = 3 * (3 - 1) div 2 \<and>
    get_pairs 3 ''lower'' True = Inr (PairsArray lo) \<and>
    distinct lo \<and> set lo = {(i, j). j < i \<and> i < 3} \<and> set lo = (\<lambda>(i, j). (j, i)) ` set up \<and>
    get_pairs 3 ''both'' True = Inr (PairsArray (up @ lo)) \<and>
    (\<forall>part ps. get_pairs 3 part True = Inr (PairsArray ps) \<longrightarrow>
       get_pairs 3 part False = Inr (PairsTuple (map fst ps, map snd ps))) \<and>
    (\<forall>part as_array. part \<notin> {''upper'', ''lower'', ''both''} \<longrightarrow>
       get_pairs 3 part as_array = Inl AssertionError)" ..
  from X have u: "get_pairs 3 ''upper'' True = Inr (PairsArray up)" by (elim conjE)
  from X have l: "length up = 3 * (3 - 1) div 2" by (elim conjE)
  from X have s: "set up = {(i, j). i < j \<and> j < 3}" by (elim conjE)
  from X have b: "get_pairs 3 ''both'' True = Inr (PairsArray (up @ lo))" by (elim conjE)
  from X have t: "\<forall>part ps. get_pairs 3 part True = Inr (PairsArray ps) \<longrightarrow>
       get_pairs 3 part False = Inr (PairsTuple (map fst ps, map snd ps))" by (elim conjE)
  from X have e: "\<forall>part as_array. part \<notin> {''upper'', ''lower'', ''both''} \<longrightarrow>
       get_pairs 3 part as_array = Inl AssertionError" by (elim conjE)
  from e have e': "get_pairs 3 ''full'' True = Inl AssertionError" by simp
  from t b have t': "get_pairs 3 ''both'' False = Inr (PairsTuple (map fst (up @ lo), map snd (up @ lo)))"
    by (elim allE impE) assumption
  from l have l': "length up = 3" by simp
  show ?thesis
    by (intro exI conjI) (rule u l' s b t' e')+
qed

section \<open>Ravel and unravel\<close>

text \<open>A well-formed two-dimensional array of shape \<open>[n, m]\<close>.\<close>

definition arr2 :: "nat \<Rightarrow> nat \<Rightarrow> 'a ndarray \<Rightarrow> bool" where
  "arr2 n m a = (shape a = [n, m] \<and> length (data a) = n * m)"

definition in_bounds2 :: "'a ndarray \<Rightarrow> nat \<times> nat \<Rightarrow> bool" where
  "in_bounds2 a p = (fst p < nrows a \<and> snd p < ncols a)"

text \<open>
  \<^verbatim>\<open>a[rows, cols]\<close> with two index sequences reads the listed entries into a new
  one-dimensional array; an index outside the array raises \<^verbatim>\<open>IndexError\<close>.
\<close>

definition take_pairs :: "'a ndarray \<Rightarrow> nat list \<times> nat list \<Rightarrow> error + 'a ndarray" where
  "take_pairs a idx =
     (if length (fst idx) \<noteq> length (snd idx) then Inl IndexError
      else if \<not> list_all (in_bounds2 a) (c_stack idx) then Inl IndexError
      else Inr \<lparr>shape = [length (fst idx)], data = map (\<lambda>(i, j). get2 a i j) (c_stack idx)\<rparr>)"

text \<open>
  \<^verbatim>\<open>a[rows, cols] = v\<close>: the entries are written one after the other.  \<open>v\<close> must have one
  element per index pair, or a single element that is broadcast; any other length raises
  \<^verbatim>\<open>ValueError\<close>.
\<close>

definition put_pairs :: "'a ndarray \<Rightarrow> nat list \<times> nat list \<Rightarrow> 'a ndarray \<Rightarrow> error + 'a ndarray" where
  "put_pairs a idx v =
     (if length (fst idx) \<noteq> length (snd idx) then Inl IndexError
      else if \<not> list_all (in_bounds2 a) (c_stack idx) then Inl IndexError
      else if length (data v) = length (fst idx) then
        Inr (fold (\<lambda>(p, x) b. set2 b (fst p) (snd p) x) (zip (c_stack idx) (data v)) a)
      else if length (data v) = 1 then
        Inr (fold (\<lambda>p b. set2 b (fst p) (snd p) (data v ! 0)) (c_stack idx) a)
      else Inl ValueError)"

definition ravel_connect :: "'a ndarray \<Rightarrow> string \<Rightarrow> error + 'a ndarray" where
  "ravel_connect connect part =
     (if ndim connect \<noteq> 2 then Inl AssertionError
      else if shape connect ! 0 \<noteq> shape connect ! 1 then Inl AssertionError
      else case get_pairs_idx (shape connect ! 0) part of
        Inl e \<Rightarrow> Inl e
      | Inr pairs \<Rightarrow> take_pairs connect pairs)"

definition unravel_connect :: "('a::zero) ndarray \<Rightarrow> nat \<Rightarrow> string \<Rightarrow> error + 'a ndarray" where
  "unravel_connect connect n_sites part =
     (if ndim connect \<noteq> 1 then Inl AssertionError
      else case get_pairs_idx n_sites part of
        Inl e \<Rightarrow> Inl e
      | Inr pairs \<Rightarrow>
          let connect_ur = full2 n_sites n_sites 0
          in put_pairs connect_ur pairs connect)"

lemma idx_inj:
  fixes i j i' j' m :: nat
  assumes "j < m" "j' < m"
  shows "(i * m + j = i' * m + j') = (i = i' \<and> j = j')"
proof
  assume e: "i * m + j = i' * m + j'"
  have "(i * m + j) div m = i" "(i' * m + j') div m = i'" using assms by simp_all
  then have "i = i'" using e by simp
  then show "i = i' \<and> j = j'" using e by simp
qed simp

lemma idx_bound:
  fixes i j n m :: nat
  assumes "i < n" "j < m"
  shows "i * m + j < n * m"
proof -
  have "i * m + j < i * m + m" using assms by simp
  also have "\<dots> = Suc i * m" by simp
  also have "\<dots> \<le> n * m" using assms by (intro mult_le_mono1) simp
  finally show ?thesis .
qed

lemma arr2_set2: "arr2 n m a \<Longrightarrow> arr2 n m (set2 a i j v)"
  by (simp add: arr2_def set2_def)

lemma get2_set2:
  assumes "arr2 n m a" "i < n" "j < m" "j' < m"
  shows "get2 (set2 a i j v) i' j' = (if i = i' \<and> j = j' then v else get2 a i' j')"
proof -
  have sh: "shape a = [n, m]" using assms(1) by (simp add: arr2_def)
  have b: "i * m + j < length (data a)" using assms idx_bound [of i n j m] by (simp add: arr2_def)
  show ?thesis
    using b idx_inj [OF assms(3,4), of i i']
    by (auto simp: get2_def set2_def ncols_def sh)
qed

lemma arr2_full2: "arr2 n m (full2 n m v)"
  by (simp add: arr2_def full2_def)

lemma get2_full2: "i < n \<Longrightarrow> j < m \<Longrightarrow> get2 (full2 n m v) i j = v"
  using idx_bound [of i n j m] by (simp add: get2_def full2_def ncols_def)

lemma arr2_tabulate2: "arr2 n m (tabulate2 n m f)"
  by (simp add: arr2_def tabulate2_def)

lemma get2_tabulate2: "i < n \<Longrightarrow> j < m \<Longrightarrow> get2 (tabulate2 n m f) i j = f i j"
  using idx_bound [of i n j m] by (simp add: get2_def tabulate2_def ncols_def)

lemma scatter_arr2:
  "arr2 n m a \<Longrightarrow> arr2 n m (fold (\<lambda>(p, x) b. set2 b (fst p) (snd p) x) pxs a)"
  by (induction pxs arbitrary: a) (auto simp: arr2_set2)

lemma scatter_get2:
  assumes "arr2 n m a" "\<forall>p \<in> set ps. fst p < n \<and> snd p < m" "j < m"
  shows "get2 (fold (\<lambda>(p, x) b. set2 b (fst p) (snd p) x) (zip ps (map f ps)) a) i j =
         (if (i, j) \<in> set ps then f (i, j) else get2 a i j)"
  using assms
proof (induction ps arbitrary: a)
  case Nil
  show ?case by simp
next
  case (Cons p ps)
  obtain pi pj where p: "p = (pi, pj)" by (cases p)
  have b: "pi < n" "pj < m" using Cons.prems(2) p by auto
  have a': "arr2 n m (set2 a pi pj (f p))" using Cons.prems(1) by (rule arr2_set2)
  have g: "get2 (set2 a pi pj (f p)) i j = (if pi = i \<and> pj = j then f p else get2 a i j)"
    using get2_set2 [OF Cons.prems(1) b Cons.prems(3)] .
  have "get2 (fold (\<lambda>(p, x) b. set2 b (fst p) (snd p) x) (zip ps (map f ps)) (set2 a pi pj (f p))) i j =
         (if (i, j) \<in> set ps then f (i, j) else get2 (set2 a pi pj (f p)) i j)"
    using Cons.IH [OF a' _ Cons.prems(3)] Cons.prems(2) by simp
  then show ?case using g p by auto
qed

lemma triu_pairs_bounds: "p \<in> set (triu_pairs n k) \<Longrightarrow> fst p < n \<and> snd p < n"
  by (auto simp: triu_pairs_def split: if_splits)

lemma tril_pairs_bounds: "p \<in> set (tril_pairs n k) \<Longrightarrow> fst p < n \<and> snd p < n"
  by (auto simp: tril_pairs_def split: if_splits)

lemma get_pairs_idx_Inr:
  assumes "part \<in> {''upper'', ''lower'', ''both''}"
  shows "\<exists>ps. get_pairs_idx n part = Inr (map fst ps, map snd ps) \<and>
              get_pairs n part True = Inr (PairsArray ps) \<and>
              (\<forall>p \<in> set ps. fst p < n \<and> snd p < n)"
proof -
  consider "part = ''upper''" | "part = ''lower''" | "part = ''both''" using assms by auto
  then show ?thesis
  proof cases
    case 1
    have "get_pairs_idx n part = Inr (map fst (triu_pairs n 1), map snd (triu_pairs n 1))"
      using 1 by (simp add: get_pairs_idx_def triu_indices_def)
    then show ?thesis using 1 get_pairs_upper [of n] triu_pairs_bounds [of _ n 1] by blast
  next
    case 2
    have "get_pairs_idx n part = Inr (map fst (tril_pairs n (- 1)), map snd (tril_pairs n (- 1)))"
      using 2 by (simp add: get_pairs_idx_def tril_indices_def)
    then show ?thesis using 2 get_pairs_lower [of n] tril_pairs_bounds [of _ n "- 1"] by blast
  next
    case 3
    let ?ps = "triu_pairs n 1 @ tril_pairs n (- 1)"
    have "get_pairs_idx n part = Inr (map fst ?ps, map snd ?ps)"
      using 3 by (simp add: get_pairs_idx_def triu_indices_def tril_indices_def c_stack_unzip Let_def)
    moreover have "\<forall>p \<in> set ?ps. fst p < n \<and> snd p < n"
      using triu_pairs_bounds [of _ n 1] tril_pairs_bounds [of _ n "- 1"] by auto
    ultimately show ?thesis using 3 get_pairs_both [of n] by blast
  qed
qed

lemma take_pairs_Inr:
  assumes "shape a = [n, m]" "\<forall>p \<in> set ps. fst p < n \<and> snd p < m"
  shows "take_pairs a (map fst ps, map snd ps) =
         Inr \<lparr>shape = [length ps], data = map (\<lambda>p. get2 a (fst p) (snd p)) ps\<rparr>"
proof -
  have "list_all (in_bounds2 a) ps"
    using assms by (simp add: list_all_iff in_bounds2_def nrows_def ncols_def)
  then show ?thesis
    by (simp add: take_pairs_def c_stack_unzip case_prod_beta)
qed

lemma put_pairs_Inr:
  assumes "arr2 n m a" "\<forall>p \<in> set ps. fst p < n \<and> snd p < m"
  shows "put_pairs a (map fst ps, map snd ps) \<lparr>shape = sh, data = map f ps\<rparr> =
         Inr (fold (\<lambda>(p, x) b. set2 b (fst p) (snd p) x) (zip ps (map f ps)) a)"
proof -
  have "list_all (in_bounds2 a) ps"
    using assms by (simp add: list_all_iff in_bounds2_def nrows_def ncols_def arr2_def)
  then show ?thesis
    by (simp add: put_pairs_def c_stack_unzip)
qed

text \<open>
  Claim C4.  Round trip: for every \<open>n \<times> n\<close> matrix \<open>A\<close> and every part in
  \<open>{upper, lower, both}\<close>, both calls succeed and
  \<^verbatim>\<open>unravel_connect(ravel_connect(A, part), n, part)\<close> is the \<open>n \<times> n\<close> matrix that equals
  \<open>A\<close> at exactly the positions of \<^verbatim>\<open>get_pairs(n, part)\<close> and is zero everywhere else.
\<close>

theorem ravel_unravel_roundtrip:
  fixes A :: "('a::zero) ndarray"
  assumes "wf_array A" and "shape A = [n, n]" and "part \<in> {''upper'', ''lower'', ''both''}"
  shows "\<exists>v R ps. ravel_connect A part = Inr v \<and> unravel_connect v n part = Inr R \<and>
           get_pairs n part True = Inr (PairsArray ps) \<and>
           shape R = [n, n] \<and> wf_array R \<and>
           (\<forall>i < n. \<forall>j < n. get2 R i j = (if (i, j) \<in> set ps then get2 A i j else 0))"
proof -
  obtain ps where idx: "get_pairs_idx n part = Inr (map fst ps, map snd ps)"
    and gp: "get_pairs n part True = Inr (PairsArray ps)"
    and bnd: "\<forall>p \<in> set ps. fst p < n \<and> snd p < n"
    using get_pairs_idx_Inr [OF assms(3), of n] by blast
  let ?f = "\<lambda>p. get2 A (fst p) (snd p)"
  let ?v = "\<lparr>shape = [length ps], data = map ?f ps\<rparr>"
  let ?R = "fold (\<lambda>(p, x) b. set2 b (fst p) (snd p) x) (zip ps (map ?f ps)) (full2 n n 0)"
  have rv: "ravel_connect A part = Inr ?v"
    using take_pairs_Inr [OF assms(2) bnd] idx assms(2) by (simp add: ravel_connect_def ndim_def)
  have ur: "unravel_connect ?v n part = Inr ?R"
    using put_pairs_Inr [OF arr2_full2 bnd, where f = ?f and sh = "[length ps]"] idx
    by (simp add: unravel_connect_def ndim_def)
  have a2: "arr2 n n ?R" by (rule scatter_arr2) (rule arr2_full2)
  have ent: "\<forall>i < n. \<forall>j < n. get2 ?R i j = (if (i, j) \<in> set ps then get2 A i j else 0)"
    using scatter_get2 [OF arr2_full2 bnd, where f = ?f] by (simp add: get2_full2)
  show ?thesis
    using rv ur gp a2 ent unfolding arr2_def wf_array_def
    by (intro exI [of _ ?v] exI [of _ ?R] exI [of _ ps]) simp
qed

theorem ravel_unravel_roundtrip_witness:
  "\<exists>v R. ravel_connect \<lparr>shape = [3, 3], data = [1, 2, 3, 4, 5, 6, 7, 8, 9 :: int]\<rparr> ''upper'' = Inr v \<and>
     unravel_connect v 3 ''upper'' = Inr R \<and> shape R = [3, 3] \<and>
     get2 R 0 1 = 2 \<and> get2 R 1 2 = 6 \<and> get2 R 1 0 = 0 \<and> get2 R 1 1 = 0"
proof -
  let ?A = "\<lparr>shape = [3, 3], data = [1, 2, 3, 4, 5, 6, 7, 8, 9 :: int]\<rparr>"
  have w: "wf_array ?A" by (simp add: wf_array_def)
  have s: "shape ?A = [3, 3]" by simp
  have p: "''upper'' \<in> {''upper'', ''lower'', ''both''}" by simp
  from ravel_unravel_roundtrip [OF w s p] obtain v R ps where
    rv: "ravel_connect ?A ''upper'' = Inr v" and ur: "unravel_connect v 3 ''upper'' = Inr R" and
    gp: "get_pairs 3 ''upper'' True = Inr (PairsArray ps)" and sh: "shape R = [3, 3]" and
    ent: "\<forall>i < 3. \<forall>j < 3. get2 R i j = (if (i, j) \<in> set ps then get2 ?A i j else 0)"
    by blast
  have ps: "set ps = {(i, j). i < j \<and> j < 3}"
    using gp get_pairs_upper [of 3] set_triu_pairs [of 3] by simp
  have a01: "get2 ?A 0 1 = 2" and a12: "get2 ?A 1 2 = 6" by (simp_all add: get2_def ncols_def)
  have "get2 R 0 1 = (if (0, 1) \<in> set ps then get2 ?A 0 1 else 0)" using ent by simp
  then have e01: "get2 R 0 1 = 2" using ps a01 by simp
  have "get2 R 1 2 = (if (1, 2) \<in> set ps then get2 ?A 1 2 else 0)" using ent by simp
  then have e12: "get2 R 1 2 = 6" using ps a12 by simp
  have "get2 R 1 0 = (if (1, 0) \<in> set ps then get2 ?A 1 0 else 0)" using ent by simp
  then have e10: "get2 R 1 0 = 0" using ps by simp
  have "get2 R 1 1 = (if (1, 1) \<in> set ps then get2 ?A 1 1 else 0)" using ent by simp
  then have e11: "get2 R 1 1 = 0" using ps by simp
  show ?thesis using rv ur sh e01 e12 e10 e11 by blast
qed

section \<open>Symmetrize\<close>

text \<open>\<^verbatim>\<open>arr.T\<close> of a two-dimensional array.\<close>

definition transpose_arr :: "'a ndarray \<Rightarrow> 'a ndarray" where
  "transpose_arr a = tabulate2 (ncols a) (nrows a) (\<lambda>i j. get2 a j i)"

text \<open>\<^verbatim>\<open>arr.diagonal()\<close>: the one-dimensional array of the entries \<open>(i, i)\<close>.\<close>

definition diagonal :: "'a ndarray \<Rightarrow> 'a ndarray" where
  "diagonal a =
     (let k = min (nrows a) (ncols a)
      in \<lparr>shape = [k], data = map (\<lambda>i. get2 a i i) [0..<k]\<rparr>)"

text \<open>\<^verbatim>\<open>np.diag(v)\<close> of a one-dimensional array: the square array with \<open>v\<close> on its diagonal.\<close>

definition np_diag :: "('a::zero) ndarray \<Rightarrow> 'a ndarray" where
  "np_diag v =
     (let k = length (data v)
      in tabulate2 k k (\<lambda>i j. if i = j then data v ! i else 0))"

text \<open>Elementwise \<^verbatim>\<open>+\<close> and \<^verbatim>\<open>-\<close> of two arrays of one shape.\<close>

definition add_arr :: "('a::plus) ndarray \<Rightarrow> 'a ndarray \<Rightarrow> 'a ndarray" where
  "add_arr a b = \<lparr>shape = shape a, data = map2 (+) (data a) (data b)\<rparr>"

definition sub_arr :: "('a::minus) ndarray \<Rightarrow> 'a ndarray \<Rightarrow> 'a ndarray" where
  "sub_arr a b = \<lparr>shape = shape a, data = map2 (-) (data a) (data b)\<rparr>"

definition symmetrize :: "('a::{plus,minus,zero}) ndarray \<Rightarrow> error + 'a ndarray" where
  "symmetrize arr =
     (if \<not> (ndim arr = 2 \<and> shape arr ! 0 = shape arr ! 1) then Inl AssertionError
      else Inr (sub_arr (add_arr arr (transpose_arr arr)) (np_diag (diagonal arr))))"

lemma arr2_add_arr: "arr2 n m a \<Longrightarrow> arr2 n m b \<Longrightarrow> arr2 n m (add_arr a b)"
  by (simp add: arr2_def add_arr_def)

lemma arr2_sub_arr: "arr2 n m a \<Longrightarrow> arr2 n m b \<Longrightarrow> arr2 n m (sub_arr a b)"
  by (simp add: arr2_def sub_arr_def)

lemma get2_add_arr:
  assumes "arr2 n m a" "arr2 n m b" "i < n" "j < m"
  shows "get2 (add_arr a b) i j = get2 a i j + get2 b i j"
  using assms idx_bound [of i n j m]
  by (simp add: arr2_def add_arr_def get2_def ncols_def)

lemma get2_sub_arr:
  assumes "arr2 n m a" "arr2 n m b" "i < n" "j < m"
  shows "get2 (sub_arr a b) i j = get2 a i j - get2 b i j"
  using assms idx_bound [of i n j m]
  by (simp add: arr2_def sub_arr_def get2_def ncols_def)

lemma arr2_transpose_arr: "arr2 n m a \<Longrightarrow> arr2 m n (transpose_arr a)"
  by (simp add: transpose_arr_def arr2_def nrows_def ncols_def tabulate2_def)

lemma get2_transpose_arr: "arr2 n m a \<Longrightarrow> i < m \<Longrightarrow> j < n \<Longrightarrow> get2 (transpose_arr a) i j = get2 a j i"
  by (simp add: transpose_arr_def arr2_def nrows_def ncols_def get2_tabulate2)

lemma arr2_np_diag_diagonal: "arr2 n n a \<Longrightarrow> arr2 n n (np_diag (diagonal a))"
  by (simp add: np_diag_def diagonal_def arr2_def nrows_def ncols_def tabulate2_def)

lemma get2_np_diag_diagonal:
  "arr2 n n a \<Longrightarrow> i < n \<Longrightarrow> j < n \<Longrightarrow>
   get2 (np_diag (diagonal a)) i j = (if i = j then get2 a i i else 0)"
  by (simp add: np_diag_def diagonal_def arr2_def nrows_def ncols_def get2_tabulate2)

lemma symmetrize_entries:
  fixes A :: "('a::{plus,minus,zero}) ndarray"
  assumes "arr2 n n A"
  shows "\<exists>S. symmetrize A = Inr S \<and> arr2 n n S \<and>
          (\<forall>i < n. \<forall>j < n. get2 S i j = get2 A i j + get2 A j i - (if i = j then get2 A i i else 0))"
proof -
  let ?S = "sub_arr (add_arr A (transpose_arr A)) (np_diag (diagonal A))"
  have s: "symmetrize A = Inr ?S" using assms by (simp add: symmetrize_def arr2_def ndim_def)
  have t: "arr2 n n (transpose_arr A)" using assms by (rule arr2_transpose_arr)
  have ad: "arr2 n n (add_arr A (transpose_arr A))" using assms t by (rule arr2_add_arr)
  have d: "arr2 n n (np_diag (diagonal A))" using assms by (rule arr2_np_diag_diagonal)
  have S: "arr2 n n ?S" using ad d by (rule arr2_sub_arr)
  have "get2 ?S i j = get2 A i j + get2 A j i - (if i = j then get2 A i i else 0)"
    if "i < n" "j < n" for i j
    using that get2_sub_arr [OF ad d that] get2_add_arr [OF assms t that]
      get2_transpose_arr [OF assms that] get2_np_diag_diagonal [OF assms that]
    by simp
  then show ?thesis using s S by blast
qed





lemma fl_sym: "(a :: fl) + b - c = b + a - c"
  by (simp add: plus_fl_def fl_add_commute)






section \<open>Block-diagonal concatenation\<close>

text \<open>
  An array that may carry a validity mask (\<^verbatim>\<open>np.ma.MaskedArray\<close>): \<open>mask = None\<close> is a
  plain array or a masked array with \<^verbatim>\<open>nomask\<close>; otherwise the mask has the shape of the
  values and \<open>True\<close> marks an entry as masked.
\<close>

record 'a marray =
  arr :: "'a ndarray"
  mask :: "bool ndarray option"

text \<open>\<^verbatim>\<open>np.ma.is_masked(x)\<close>: some entry of \<open>x\<close> is masked.\<close>

definition is_masked :: "'a marray \<Rightarrow> bool" where
  "is_masked x = (case mask x of None \<Rightarrow> False | Some m \<Rightarrow> list_ex (\<lambda>b. b) (data m))"

text \<open>
  Writing the region \<open>[lo0, lo0 + r0) \<times> [lo1, lo1 + r1)\<close> of a two-dimensional array from a
  source given by its entries; every other entry is kept.
\<close>

definition set_region ::
  "'a ndarray \<Rightarrow> nat \<Rightarrow> nat \<Rightarrow> nat \<Rightarrow> nat \<Rightarrow> (nat \<Rightarrow> nat \<Rightarrow> 'a) \<Rightarrow> 'a ndarray" where
  "set_region a lo0 r0 lo1 r1 f =
     tabulate2 (nrows a) (ncols a)
       (\<lambda>i j. if lo0 \<le> i \<and> i < lo0 + r0 \<and> lo1 \<le> j \<and> j < lo1 + r1
              then f (i - lo0) (j - lo1) else get2 a i j)"

text \<open>The entries of a source of shape \<open>(s, m)\<close> broadcast along an axis of length one.\<close>

definition broadcast_src :: "'a ndarray \<Rightarrow> nat \<Rightarrow> nat \<Rightarrow> 'a" where
  "broadcast_src c i j = get2 c (if nrows c = 1 then 0 else i) (if ncols c = 1 then 0 else j)"

text \<open>
  \<^verbatim>\<open>aconnect[sl, sl] = c\<close> with \<^verbatim>\<open>sl = slice(q, q + s)\<close>.  The slice is clipped to the
  array; \<open>c\<close> must broadcast to the shape of the region, else \<^verbatim>\<open>ValueError\<close>.  On a masked
  target the mask of the region becomes the mask of \<open>c\<close> (all \<open>False\<close> when \<open>c\<close> has none);
  a plain target takes the values only.
\<close>

definition assign_block :: "'a marray \<Rightarrow> nat \<Rightarrow> nat \<Rightarrow> 'a marray \<Rightarrow> error + 'a marray" where
  "assign_block a q s c =
     (let lo0 = min q (nrows (arr a)); r0 = min (q + s) (nrows (arr a)) - lo0;
          lo1 = min q (ncols (arr a)); r1 = min (q + s) (ncols (arr a)) - lo1
      in if \<not> ((nrows (arr c) = r0 \<or> nrows (arr c) = 1) \<and> (ncols (arr c) = r1 \<or> ncols (arr c) = 1))
         then Inl ValueError
         else Inr \<lparr>arr = set_region (arr a) lo0 r0 lo1 r1 (broadcast_src (arr c)),
                   mask = (case mask a of
                      None \<Rightarrow> None
                    | Some m \<Rightarrow> Some (set_region m lo0 r0 lo1 r1
                        (case mask c of None \<Rightarrow> (\<lambda>i j. False) | Some mc \<Rightarrow> broadcast_src mc)))\<rparr>)"

text \<open>
  The elements of the input arrays: doubles, complex doubles or integers.
  \<^verbatim>\<open>np.full(..., dtype=float)\<close> makes \<^verbatim>\<open>aconnect\<close> an array of doubles, and an assignment
  into it converts the assigned values: a double is kept, a complex number gives its
  real part (numpy warns and discards the imaginary part), an integer gives the nearest
  double.
\<close>

datatype scalar = FloatV fl | ComplexV cfl | IntV int

definition astype_float :: "scalar \<Rightarrow> fl" where
  "astype_float v = (case v of FloatV x \<Rightarrow> x | ComplexV z \<Rightarrow> re z | IntV k \<Rightarrow> to_fl (of_int k))"

definition astype_float_arr :: "scalar marray \<Rightarrow> fl marray" where
  "astype_float_arr c =
     \<lparr>arr = \<lparr>shape = shape (arr c), data = map astype_float (data (arr c))\<rparr>, mask = mask c\<rparr>"

fun merge_loop :: "fl marray \<Rightarrow> nat \<Rightarrow> (scalar marray \<times> nat) list \<Rightarrow> error + fl marray" where
  "merge_loop aconnect q [] = Inr aconnect"
| "merge_loop aconnect q ((c, s) # rest) =
     (case assign_block aconnect q s (astype_float_arr c) of
        Inl e \<Rightarrow> Inl e
      | Inr aconnect' \<Rightarrow> merge_loop aconnect' (q + s) rest)"

text \<open>
  \<^verbatim>\<open>concat_connect\<close>.  \<^verbatim>\<open>np.sum([shapes])\<close> of an empty list is the double \<open>0.0\<close>, which
  \<^verbatim>\<open>np.full\<close> refuses as a size; of a list that is not empty it is the integer sum.
\<close>

definition concat_connect :: "scalar marray list \<Rightarrow> scalar \<Rightarrow> error + fl marray" where
  "concat_connect connect fill_with =
     (if \<not> list_all (\<lambda>k. ndim (arr k) = 2) connect then Inl AssertionError
      else
        let shapes = map (\<lambda>k. shape (arr k) ! 0) connect
        in if shapes = [] then Inl TypeError
           else
             let sh = sum_list shapes;
                 aconnect = \<lparr>arr = full2 sh sh (astype_float fill_with), mask = None\<rparr>;
                 aconnect' = (if list_ex is_masked connect
                              then aconnect\<lparr>mask := Some (full2 sh sh True)\<rparr> else aconnect)
             in merge_loop aconnect' 0 (zip connect shapes))"

section \<open>Properties of the concatenation\<close>

definition wf_marray :: "nat \<Rightarrow> 'a marray \<Rightarrow> bool" where
  "wf_marray n c = (arr2 n n (arr c) \<and> (case mask c of None \<Rightarrow> True | Some m \<Rightarrow> arr2 n n m))"

definition mask_at :: "'a marray \<Rightarrow> nat \<Rightarrow> nat \<Rightarrow> bool" where
  "mask_at c i j = (case mask c of None \<Rightarrow> False | Some m \<Rightarrow> get2 m i j)"

definition block_size :: "'a marray list \<Rightarrow> nat \<Rightarrow> nat" where
  "block_size ms k = shape (arr (ms ! k)) ! 0"

definition block_offset :: "'a marray list \<Rightarrow> nat \<Rightarrow> nat" where
  "block_offset ms k = sum_list (map (\<lambda>c. shape (arr c) ! 0) (take k ms))"

definition total_size :: "'a marray list \<Rightarrow> nat" where
  "total_size ms = sum_list (map (\<lambda>c. shape (arr c) ! 0) ms)"

definition in_block :: "'a marray list \<Rightarrow> nat \<Rightarrow> nat \<Rightarrow> nat \<Rightarrow> bool" where
  "in_block ms k i j =
     (block_offset ms k \<le> i \<and> i < block_offset ms k + block_size ms k \<and>
      block_offset ms k \<le> j \<and> j < block_offset ms k + block_size ms k)"

fun block_lookup :: "nat \<Rightarrow> (nat \<times> (nat \<Rightarrow> nat \<Rightarrow> 'b)) list \<Rightarrow> nat \<Rightarrow> nat \<Rightarrow> 'b option" where
  "block_lookup q [] i j = None"
| "block_lookup q ((s, f) # bs) i j =
     (if q \<le> i \<and> i < q + s \<and> q \<le> j \<and> j < q + s then Some (f (i - q) (j - q))
      else block_lookup (q + s) bs i j)"

lemma arr2_set_region: "arr2 n m a \<Longrightarrow> arr2 n m (set_region a lo0 r0 lo1 r1 f)"
  by (simp add: set_region_def arr2_def nrows_def ncols_def tabulate2_def)

lemma get2_set_region:
  "arr2 n m a \<Longrightarrow> i < n \<Longrightarrow> j < m \<Longrightarrow>
   get2 (set_region a lo0 r0 lo1 r1 f) i j =
     (if lo0 \<le> i \<and> i < lo0 + r0 \<and> lo1 \<le> j \<and> j < lo1 + r1 then f (i - lo0) (j - lo1) else get2 a i j)"
  by (simp add: set_region_def arr2_def nrows_def ncols_def get2_tabulate2)

lemma broadcast_src_square:
  "arr2 s s c \<Longrightarrow> i < s \<Longrightarrow> j < s \<Longrightarrow> broadcast_src c i j = get2 c i j"
  by (auto simp: broadcast_src_def arr2_def nrows_def ncols_def)

lemma block_lookup_below: "i < q \<Longrightarrow> block_lookup q bs i j = None"
  by (induction bs arbitrary: q) auto

lemma block_lookup_hit:
  "k < length bs \<Longrightarrow> i < fst (bs ! k) \<Longrightarrow> j < fst (bs ! k) \<Longrightarrow>
   block_lookup q bs (q + sum_list (map fst (take k bs)) + i) (q + sum_list (map fst (take k bs)) + j)
     = Some (snd (bs ! k) i j)"
proof (induction bs arbitrary: q k)
  case Nil
  then show ?case by simp
next
  case (Cons b bs)
  obtain s f where b: "b = (s, f)" by (cases b)
  show ?case
  proof (cases k)
    case 0
    then show ?thesis using Cons.prems b by simp
  next
    case (Suc k')
    have "block_lookup (q + s) bs (q + s + sum_list (map fst (take k' bs)) + i)
            (q + s + sum_list (map fst (take k' bs)) + j) = Some (snd (bs ! k') i j)"
      using Cons.IH [of k' "q + s"] Cons.prems Suc by simp
    then show ?thesis using Suc b by (simp add: add.assoc)
  qed
qed

lemma block_lookup_Some:
  "block_lookup q bs i j = Some v \<Longrightarrow>
   \<exists>k < length bs. q + sum_list (map fst (take k bs)) \<le> i \<and>
       i < q + sum_list (map fst (take k bs)) + fst (bs ! k) \<and>
       q + sum_list (map fst (take k bs)) \<le> j \<and>
       j < q + sum_list (map fst (take k bs)) + fst (bs ! k)"
proof (induction bs arbitrary: q)
  case Nil
  then show ?case by simp
next
  case (Cons b bs)
  obtain s f where b: "b = (s, f)" by (cases b)
  show ?case
  proof (cases "q \<le> i \<and> i < q + s \<and> q \<le> j \<and> j < q + s")
    case True
    then show ?thesis using b by (intro exI [of _ 0]) simp
  next
    case False
    then have "block_lookup (q + s) bs i j = Some v" using Cons.prems b by (auto split: if_splits)
    from Cons.IH [OF this] obtain k where k: "k < length bs"
      "q + s + sum_list (map fst (take k bs)) \<le> i"
      "i < q + s + sum_list (map fst (take k bs)) + fst (bs ! k)"
      "q + s + sum_list (map fst (take k bs)) \<le> j"
      "j < q + s + sum_list (map fst (take k bs)) + fst (bs ! k)" by blast
    then show ?thesis using b by (intro exI [of _ "Suc k"]) (simp add: add.assoc)
  qed
qed

lemma assign_block_Inr:
  assumes "arr2 N N (arr a)" and "case mask a of None \<Rightarrow> True | Some m \<Rightarrow> arr2 N N m"
    and "wf_marray s c" and "q + s \<le> N"
  shows "\<exists>a'. assign_block a q s c = Inr a' \<and> arr2 N N (arr a') \<and>
           (mask a' = None) = (mask a = None) \<and>
           (case mask a' of None \<Rightarrow> True | Some m \<Rightarrow> arr2 N N m) \<and>
           (\<forall>i < N. \<forall>j < N. get2 (arr a') i j =
              (if q \<le> i \<and> i < q + s \<and> q \<le> j \<and> j < q + s
               then get2 (arr c) (i - q) (j - q) else get2 (arr a) i j)) \<and>
           (mask a \<noteq> None \<longrightarrow> (\<forall>i < N. \<forall>j < N. mask_at a' i j =
              (if q \<le> i \<and> i < q + s \<and> q \<le> j \<and> j < q + s
               then mask_at c (i - q) (j - q) else mask_at a i j)))"
proof -
  have c: "arr2 s s (arr c)" using assms(3) by (simp add: wf_marray_def)
  have sh: "nrows (arr a) = N" "ncols (arr a) = N" "nrows (arr c) = s" "ncols (arr c) = s"
    using assms(1) c by (simp_all add: arr2_def nrows_def ncols_def)
  have mins: "min q N = q" "min (q + s) N = q + s" using assms(4) by simp_all
  define mf where "mf = (case mask c of None \<Rightarrow> (\<lambda>i j. False) | Some mc \<Rightarrow> broadcast_src mc)"
  define a' where "a' = \<lparr>arr = set_region (arr a) q s q s (broadcast_src (arr c)),
              mask = (case mask a of None \<Rightarrow> None | Some m \<Rightarrow> Some (set_region m q s q s mf))\<rparr>"
  have eq: "assign_block a q s c = Inr a'"
    by (simp add: assign_block_def sh mins Let_def a'_def mf_def cong: option.case_cong)
  have a2: "arr2 N N (arr a')" using assms(1) by (simp add: arr2_set_region a'_def)
  have mn: "(mask a' = None) = (mask a = None)" by (simp add: a'_def split: option.splits)
  have mw: "case mask a' of None \<Rightarrow> True | Some m \<Rightarrow> arr2 N N m"
    using assms(2) by (simp add: arr2_set_region a'_def split: option.splits)
  have ent: "\<forall>i < N. \<forall>j < N. get2 (arr a') i j =
              (if q \<le> i \<and> i < q + s \<and> q \<le> j \<and> j < q + s
               then get2 (arr c) (i - q) (j - q) else get2 (arr a) i j)"
  proof (intro allI impI)
    fix i j assume h: "i < N" "j < N"
    have "q \<le> i \<and> i < q + s \<and> q \<le> j \<and> j < q + s \<Longrightarrow>
          broadcast_src (arr c) (i - q) (j - q) = get2 (arr c) (i - q) (j - q)"
      by (intro broadcast_src_square [OF c]) auto
    then show "get2 (arr a') i j =
              (if q \<le> i \<and> i < q + s \<and> q \<le> j \<and> j < q + s
               then get2 (arr c) (i - q) (j - q) else get2 (arr a) i j)"
      using get2_set_region [OF assms(1) h] by (simp add: a'_def)
  qed
  have mf: "mf i j = mask_at c i j" if "i < s" "j < s" for i j
    using assms(3) that
    by (auto simp: mf_def wf_marray_def mask_at_def broadcast_src_square split: option.splits)
  have ment: "mask a \<noteq> None \<longrightarrow> (\<forall>i < N. \<forall>j < N. mask_at a' i j =
              (if q \<le> i \<and> i < q + s \<and> q \<le> j \<and> j < q + s
               then mask_at c (i - q) (j - q) else mask_at a i j))"
  proof (intro allI impI)
    fix i j assume h: "mask a \<noteq> None" "i < N" "j < N"
    obtain m where Some: "mask a = Some m" using h(1) by auto
    then have m: "arr2 N N m" using assms(2) by simp
    have "q \<le> i \<and> i < q + s \<and> q \<le> j \<and> j < q + s \<Longrightarrow> mf (i - q) (j - q) = mask_at c (i - q) (j - q)"
      by (intro mf) auto
    then show "mask_at a' i j =
              (if q \<le> i \<and> i < q + s \<and> q \<le> j \<and> j < q + s
               then mask_at c (i - q) (j - q) else mask_at a i j)"
      using Some get2_set_region [OF m h(2,3), of q s q s mf]
      by (simp add: mask_at_def a'_def)
  qed
  show ?thesis
    by (intro exI [of _ a'] conjI) (rule eq a2 mn mw ent ment)+
qed

lemma wf_astype_float_arr: "wf_marray s (astype_float_arr c) = wf_marray s c"
  by (simp add: wf_marray_def astype_float_arr_def arr2_def)

lemma mask_at_astype_float_arr: "mask_at (astype_float_arr c) = mask_at c"
  by (simp add: mask_at_def astype_float_arr_def fun_eq_iff)

lemma get2_astype_float_arr:
  "arr2 n m (arr c) \<Longrightarrow> i < n \<Longrightarrow> j < m \<Longrightarrow>
   get2 (arr (astype_float_arr c)) i j = astype_float (get2 (arr c) i j)"
  using idx_bound [of i n j m]
  by (simp add: astype_float_arr_def get2_def ncols_def arr2_def)

lemma merge_loop_entries:
  assumes "arr2 N N (arr a)" and "case mask a of None \<Rightarrow> True | Some m \<Rightarrow> arr2 N N m"
    and "\<forall>p \<in> set cs. wf_marray (snd p) (fst p)" and "q + sum_list (map snd cs) \<le> N"
  shows "\<exists>R. merge_loop a q cs = Inr R \<and> arr2 N N (arr R) \<and>
           (mask R = None) = (mask a = None) \<and>
           (case mask R of None \<Rightarrow> True | Some m \<Rightarrow> arr2 N N m) \<and>
           (\<forall>i < N. \<forall>j < N. get2 (arr R) i j =
              (case block_lookup q (map (\<lambda>p. (snd p, get2 (arr (astype_float_arr (fst p))))) cs) i j of
                 None \<Rightarrow> get2 (arr a) i j | Some v \<Rightarrow> v)) \<and>
           (mask a \<noteq> None \<longrightarrow> (\<forall>i < N. \<forall>j < N. mask_at R i j =
              (case block_lookup q (map (\<lambda>p. (snd p, mask_at (astype_float_arr (fst p)))) cs) i j of
                 None \<Rightarrow> mask_at a i j | Some v \<Rightarrow> v)))"
  using assms
proof (induction cs arbitrary: a q)
  case Nil
  then show ?case by simp
next
  case (Cons p cs)
  obtain c s where p: "p = (c, s)" by (cases p)
  have wc: "wf_marray s (astype_float_arr c)" using Cons.prems(3) p by (simp add: wf_astype_float_arr)
  have qs: "q + s \<le> N" using Cons.prems(4) p by simp
  from assign_block_Inr [OF Cons.prems(1,2) wc qs] obtain a' where
    eq: "assign_block a q s (astype_float_arr c) = Inr a'" and a2: "arr2 N N (arr a')" and
    mn: "(mask a' = None) = (mask a = None)" and
    mw: "case mask a' of None \<Rightarrow> True | Some m \<Rightarrow> arr2 N N m" and
    ent: "\<forall>i < N. \<forall>j < N. get2 (arr a') i j =
              (if q \<le> i \<and> i < q + s \<and> q \<le> j \<and> j < q + s
               then get2 (arr (astype_float_arr c)) (i - q) (j - q) else get2 (arr a) i j)" and
    ment: "mask a \<noteq> None \<longrightarrow> (\<forall>i < N. \<forall>j < N. mask_at a' i j =
              (if q \<le> i \<and> i < q + s \<and> q \<le> j \<and> j < q + s
               then mask_at (astype_float_arr c) (i - q) (j - q) else mask_at a i j))"
    by (elim exE conjE)
  have rest: "\<forall>p \<in> set cs. wf_marray (snd p) (fst p)" using Cons.prems(3) by simp
  have bnd: "q + s + sum_list (map snd cs) \<le> N" using Cons.prems(4) p by simp
  from Cons.IH [OF a2 mw rest bnd] obtain R where
    R: "merge_loop a' (q + s) cs = Inr R" and R2: "arr2 N N (arr R)" and
    Rn: "(mask R = None) = (mask a' = None)" and
    Rw: "case mask R of None \<Rightarrow> True | Some m \<Rightarrow> arr2 N N m" and
    Rent: "\<forall>i < N. \<forall>j < N. get2 (arr R) i j =
              (case block_lookup (q + s) (map (\<lambda>p. (snd p, get2 (arr (astype_float_arr (fst p))))) cs) i j of
                 None \<Rightarrow> get2 (arr a') i j | Some v \<Rightarrow> v)" and
    Rment: "mask a' \<noteq> None \<longrightarrow> (\<forall>i < N. \<forall>j < N. mask_at R i j =
              (case block_lookup (q + s) (map (\<lambda>p. (snd p, mask_at (astype_float_arr (fst p)))) cs) i j of
                 None \<Rightarrow> mask_at a' i j | Some v \<Rightarrow> v))"
    by (elim exE conjE)
  have 1: "merge_loop a q (p # cs) = Inr R" using eq R p by simp
  have 3: "(mask R = None) = (mask a = None)" using Rn mn by simp
  have 5: "\<forall>i < N. \<forall>j < N. get2 (arr R) i j =
              (case block_lookup q (map (\<lambda>p. (snd p, get2 (arr (astype_float_arr (fst p))))) (p # cs)) i j of
                 None \<Rightarrow> get2 (arr a) i j | Some v \<Rightarrow> v)"
  proof (intro allI impI)
    fix i j assume h: "i < N" "j < N"
    show "get2 (arr R) i j =
              (case block_lookup q (map (\<lambda>p. (snd p, get2 (arr (astype_float_arr (fst p))))) (p # cs)) i j of
                 None \<Rightarrow> get2 (arr a) i j | Some v \<Rightarrow> v)"
    proof -
      have e1: "get2 (arr R) i j =
              (case block_lookup (q + s) (map (\<lambda>p. (snd p, get2 (arr (astype_float_arr (fst p))))) cs) i j of
                 None \<Rightarrow> get2 (arr a') i j | Some v \<Rightarrow> v)"
        using Rent h by simp
      have e2: "get2 (arr a') i j =
              (if q \<le> i \<and> i < q + s \<and> q \<le> j \<and> j < q + s
               then get2 (arr (astype_float_arr c)) (i - q) (j - q) else get2 (arr a) i j)"
        using ent h by simp
      show ?thesis
      proof (cases "q \<le> i \<and> i < q + s \<and> q \<le> j \<and> j < q + s")
        case True
        then have "block_lookup (q + s) (map (\<lambda>p. (snd p, get2 (arr (astype_float_arr (fst p))))) cs) i j = None"
          by (intro block_lookup_below) simp
        then show ?thesis using True e1 e2 p by simp
      next
        case False
        then show ?thesis using e1 e2 p by (auto split: option.splits)
      qed
    qed
  qed
  have 6: "mask a \<noteq> None \<longrightarrow> (\<forall>i < N. \<forall>j < N. mask_at R i j =
              (case block_lookup q (map (\<lambda>p. (snd p, mask_at (astype_float_arr (fst p)))) (p # cs)) i j of
                 None \<Rightarrow> mask_at a i j | Some v \<Rightarrow> v))"
  proof (intro allI impI)
    fix i j assume h: "mask a \<noteq> None" "i < N" "j < N"
    have m': "mask a' \<noteq> None" using h(1) mn by simp
    show "mask_at R i j =
              (case block_lookup q (map (\<lambda>p. (snd p, mask_at (astype_float_arr (fst p)))) (p # cs)) i j of
                 None \<Rightarrow> mask_at a i j | Some v \<Rightarrow> v)"
    proof -
      have e1: "mask_at R i j =
              (case block_lookup (q + s) (map (\<lambda>p. (snd p, mask_at (astype_float_arr (fst p)))) cs) i j of
                 None \<Rightarrow> mask_at a' i j | Some v \<Rightarrow> v)"
        using Rment h m' by simp
      have e2: "mask_at a' i j =
              (if q \<le> i \<and> i < q + s \<and> q \<le> j \<and> j < q + s
               then mask_at (astype_float_arr c) (i - q) (j - q) else mask_at a i j)"
        using ment h by simp
      show ?thesis
      proof (cases "q \<le> i \<and> i < q + s \<and> q \<le> j \<and> j < q + s")
        case True
        then have "block_lookup (q + s) (map (\<lambda>p. (snd p, mask_at (astype_float_arr (fst p)))) cs) i j = None"
          by (intro block_lookup_below) simp
        then show ?thesis using True e1 e2 p by simp
      next
        case False
        then show ?thesis using e1 e2 p by (auto split: option.splits)
      qed
    qed
  qed
  show ?case
    by (intro exI [of _ R] conjI) (rule 1 R2 3 Rw 5 6)+
qed

lemma block_offset_bound:
  assumes "k < length ms"
  shows "block_offset ms k + block_size ms k \<le> block_offset ms (length ms)"
proof -
  let ?xs = "map (\<lambda>c. shape (arr c) ! 0) ms"
  have "sum_list ?xs = sum_list (take k ?xs) + sum_list (drop k ?xs)"
    by (metis append_take_drop_id sum_list_append)
  moreover have "drop k ?xs = ?xs ! k # drop (Suc k) ?xs"
    using assms by (simp add: Cons_nth_drop_Suc [symmetric])
  ultimately have "sum_list (take k ?xs) + ?xs ! k \<le> sum_list ?xs" by simp
  then show ?thesis using assms by (simp add: block_offset_def block_size_def take_map)
qed

lemma block_offset_total: "k < length ms \<Longrightarrow> block_offset ms k + block_size ms k \<le> total_size ms"
  using block_offset_bound [of k ms] by (simp add: block_offset_def total_size_def)

lemma zip_with_sizes: "zip ms (map f ms) = map (\<lambda>c. (c, f c)) ms"
  by (induction ms) auto

lemma lookup_blocks_hit:
  assumes "k < length ms" "i < block_size ms k" "j < block_size ms k"
  shows "block_lookup 0 (map (\<lambda>c. (shape (arr c) ! 0, g c)) ms)
           (block_offset ms k + i) (block_offset ms k + j) = Some (g (ms ! k) i j)"
proof -
  let ?bs = "map (\<lambda>c. (shape (arr c) ! 0, g c)) ms"
  have off: "sum_list (map fst (take k ?bs)) = block_offset ms k"
    by (simp add: block_offset_def take_map comp_def)
  have sz: "fst (?bs ! k) = block_size ms k" and sn: "snd (?bs ! k) = g (ms ! k)"
    using assms(1) by (simp_all add: block_size_def)
  have "block_lookup 0 ?bs (0 + sum_list (map fst (take k ?bs)) + i)
          (0 + sum_list (map fst (take k ?bs)) + j) = Some (snd (?bs ! k) i j)"
    by (rule block_lookup_hit) (use assms sz in simp_all)
  then show ?thesis by (simp only: off sn add_0)
qed

lemma lookup_blocks_miss:
  assumes "\<forall>k < length ms. \<not> in_block ms k i j"
  shows "block_lookup 0 (map (\<lambda>c. (shape (arr c) ! 0, g c)) ms) i j = None"
proof (rule ccontr)
  let ?bs = "map (\<lambda>c. (shape (arr c) ! 0, g c)) ms"
  assume "block_lookup 0 ?bs i j \<noteq> None"
  then obtain v where "block_lookup 0 ?bs i j = Some v" by auto
  from block_lookup_Some [OF this] obtain k where k: "k < length ?bs"
    "0 + sum_list (map fst (take k ?bs)) \<le> i"
    "i < 0 + sum_list (map fst (take k ?bs)) + fst (?bs ! k)"
    "0 + sum_list (map fst (take k ?bs)) \<le> j"
    "j < 0 + sum_list (map fst (take k ?bs)) + fst (?bs ! k)" by (elim exE conjE)
  have off: "sum_list (map fst (take k ?bs)) = block_offset ms k"
    by (simp add: block_offset_def take_map comp_def)
  have sz: "fst (?bs ! k) = block_size ms k"
    using k(1) by (simp add: block_size_def)
  have "in_block ms k i j" using k off sz by (simp add: in_block_def)
  then show False using assms k(1) by simp
qed

lemma concat_connect_blocks:
  assumes "ms \<noteq> []" and "\<forall>c \<in> set ms. wf_marray (shape (arr c) ! 0) c"
  shows "\<exists>R. concat_connect ms fill_with = Inr R \<and>
           shape (arr R) = [total_size ms, total_size ms] \<and> wf_array (arr R) \<and>
           (\<forall>k < length ms. \<forall>i < block_size ms k. \<forall>j < block_size ms k.
              get2 (arr R) (block_offset ms k + i) (block_offset ms k + j) =
                astype_float (get2 (arr (ms ! k)) i j)) \<and>
           (\<forall>i < total_size ms. \<forall>j < total_size ms.
              (\<forall>k < length ms. \<not> in_block ms k i j) \<longrightarrow> get2 (arr R) i j = astype_float fill_with) \<and>
           (\<not> list_ex is_masked ms \<longrightarrow> mask R = None) \<and>
           (list_ex is_masked ms \<longrightarrow>
              (\<forall>k < length ms. \<forall>i < block_size ms k. \<forall>j < block_size ms k.
                 mask_at R (block_offset ms k + i) (block_offset ms k + j) = mask_at (ms ! k) i j) \<and>
              (\<forall>i < total_size ms. \<forall>j < total_size ms.
                 (\<forall>k < length ms. \<not> in_block ms k i j) \<longrightarrow> mask_at R i j))"
proof -
  define N where "N = total_size ms"
  define a0 :: "fl marray" where "a0 = \<lparr>arr = full2 N N (astype_float fill_with), mask = None\<rparr>"
  define a1 where "a1 = (if list_ex is_masked ms then a0\<lparr>mask := Some (full2 N N True)\<rparr> else a0)"
  define cs where "cs = map (\<lambda>c. (c, shape (arr c) ! 0)) ms"
  have "ndim (arr c) = 2" if "c \<in> set ms" for c
  proof -
    have "shape (arr c) = [shape (arr c) ! 0, shape (arr c) ! 0]"
      using assms(2) that by (simp add: wf_marray_def arr2_def)
    then have "length (shape (arr c)) = length [shape (arr c) ! 0, shape (arr c) ! 0]" by (rule arg_cong)
    then show ?thesis by (simp add: ndim_def)
  qed
  then have nd: "list_all (\<lambda>k. ndim (arr k) = 2) ms"
    by (simp add: list_all_iff)
  have cc: "concat_connect ms fill_with = merge_loop a1 0 cs"
    using nd assms(1)
    by (simp add: concat_connect_def Let_def zip_with_sizes a1_def a0_def cs_def N_def total_size_def)
  have A: "arr2 N N (arr a1)" by (simp add: a1_def a0_def arr2_full2)
  have MA: "case mask a1 of None \<Rightarrow> True | Some m \<Rightarrow> arr2 N N m"
    by (simp add: a1_def a0_def arr2_full2)
  have CS: "\<forall>p \<in> set cs. wf_marray (snd p) (fst p)" using assms(2) by (auto simp: cs_def)
  have B: "0 + sum_list (map snd cs) \<le> N" by (simp add: cs_def N_def total_size_def comp_def)
  have d: "map (\<lambda>p. (snd p, get2 (arr (astype_float_arr (fst p))))) cs =
           map (\<lambda>c. (shape (arr c) ! 0, get2 (arr (astype_float_arr c)))) ms"
    and m: "map (\<lambda>p. (snd p, mask_at (astype_float_arr (fst p)))) cs =
            map (\<lambda>c. (shape (arr c) ! 0, mask_at (astype_float_arr c))) ms"
    by (simp_all add: cs_def)
  from merge_loop_entries [OF A MA CS B] obtain R where
    R: "merge_loop a1 0 cs = Inr R" and R2: "arr2 N N (arr R)" and
    Rn: "(mask R = None) = (mask a1 = None)" and
    Rent: "\<forall>i < N. \<forall>j < N. get2 (arr R) i j =
              (case block_lookup 0 (map (\<lambda>p. (snd p, get2 (arr (astype_float_arr (fst p))))) cs) i j of
                 None \<Rightarrow> get2 (arr a1) i j | Some v \<Rightarrow> v)" and
    Rment: "mask a1 \<noteq> None \<longrightarrow> (\<forall>i < N. \<forall>j < N. mask_at R i j =
              (case block_lookup 0 (map (\<lambda>p. (snd p, mask_at (astype_float_arr (fst p)))) cs) i j of
                 None \<Rightarrow> mask_at a1 i j | Some v \<Rightarrow> v))"
    by (elim exE conjE)
  have 1: "concat_connect ms fill_with = Inr R" using cc R by simp
  have 2: "shape (arr R) = [total_size ms, total_size ms]" using R2 by (simp add: arr2_def N_def)
  have 3: "wf_array (arr R)" using R2 by (simp add: arr2_def wf_array_def)
  have inN: "block_offset ms k + i < N" if "k < length ms" "i < block_size ms k" for k i
    using block_offset_total [OF that(1)] that(2) by (simp add: N_def)
  have 4: "\<forall>k < length ms. \<forall>i < block_size ms k. \<forall>j < block_size ms k.
              get2 (arr R) (block_offset ms k + i) (block_offset ms k + j) =
                astype_float (get2 (arr (ms ! k)) i j)"
  proof (intro allI impI)
    fix k i j assume h: "k < length ms" "i < block_size ms k" "j < block_size ms k"
    have "wf_marray (shape (arr (ms ! k)) ! 0) (ms ! k)" using assms(2) h(1) by simp
    then have sq: "arr2 (block_size ms k) (block_size ms k) (arr (ms ! k))"
      by (simp add: wf_marray_def block_size_def)
    have "get2 (arr R) (block_offset ms k + i) (block_offset ms k + j) =
          (case block_lookup 0 (map (\<lambda>c. (shape (arr c) ! 0, get2 (arr (astype_float_arr c)))) ms)
                  (block_offset ms k + i) (block_offset ms k + j) of
             None \<Rightarrow> get2 (arr a1) (block_offset ms k + i) (block_offset ms k + j) | Some v \<Rightarrow> v)"
      using Rent inN [OF h(1,2)] inN [OF h(1,3)] unfolding d by simp
    then have "get2 (arr R) (block_offset ms k + i) (block_offset ms k + j) =
        get2 (arr (astype_float_arr (ms ! k))) i j"
      by (simp add: lookup_blocks_hit [OF h])
    then show "get2 (arr R) (block_offset ms k + i) (block_offset ms k + j) =
        astype_float (get2 (arr (ms ! k)) i j)"
      by (simp add: get2_astype_float_arr [OF sq h(2,3)])
  qed
  have 5: "\<forall>i < total_size ms. \<forall>j < total_size ms.
              (\<forall>k < length ms. \<not> in_block ms k i j) \<longrightarrow> get2 (arr R) i j = astype_float fill_with"
  proof (intro allI impI)
    fix i j assume h: "i < total_size ms" "j < total_size ms" "\<forall>k < length ms. \<not> in_block ms k i j"
    have "get2 (arr R) i j =
          (case block_lookup 0 (map (\<lambda>c. (shape (arr c) ! 0, get2 (arr (astype_float_arr c)))) ms) i j of
             None \<Rightarrow> get2 (arr a1) i j | Some v \<Rightarrow> v)"
      using Rent h(1,2) unfolding d N_def by simp
    moreover have "get2 (arr a1) i j = astype_float fill_with"
      using h(1,2) by (simp add: a1_def a0_def N_def get2_full2)
    ultimately show "get2 (arr R) i j = astype_float fill_with"
      by (simp add: lookup_blocks_miss [OF h(3)])
  qed
  have 6: "\<not> list_ex is_masked ms \<longrightarrow> mask R = None"
    using Rn by (simp add: a1_def a0_def)
  have 7: "list_ex is_masked ms \<longrightarrow>
              (\<forall>k < length ms. \<forall>i < block_size ms k. \<forall>j < block_size ms k.
                 mask_at R (block_offset ms k + i) (block_offset ms k + j) = mask_at (ms ! k) i j) \<and>
              (\<forall>i < total_size ms. \<forall>j < total_size ms.
                 (\<forall>k < length ms. \<not> in_block ms k i j) \<longrightarrow> mask_at R i j)"
  proof (intro impI conjI allI)
    fix k i j assume im: "list_ex is_masked ms"
      and h: "k < length ms" "i < block_size ms k" "j < block_size ms k"
    have nn: "mask a1 \<noteq> None" using im by (simp add: a1_def)
    have "mask_at R (block_offset ms k + i) (block_offset ms k + j) =
          (case block_lookup 0 (map (\<lambda>c. (shape (arr c) ! 0, mask_at (astype_float_arr c))) ms)
                  (block_offset ms k + i) (block_offset ms k + j) of
             None \<Rightarrow> mask_at a1 (block_offset ms k + i) (block_offset ms k + j) | Some v \<Rightarrow> v)"
      using Rment nn inN [OF h(1,2)] inN [OF h(1,3)] unfolding m by simp
    then show "mask_at R (block_offset ms k + i) (block_offset ms k + j) = mask_at (ms ! k) i j"
      by (simp add: lookup_blocks_hit [OF h] mask_at_astype_float_arr)
  next
    fix i j assume im: "list_ex is_masked ms"
      and h: "i < total_size ms" "j < total_size ms" "\<forall>k < length ms. \<not> in_block ms k i j"
    have nn: "mask a1 \<noteq> None" using im by (simp add: a1_def)
    have "mask_at R i j =
          (case block_lookup 0 (map (\<lambda>c. (shape (arr c) ! 0, mask_at (astype_float_arr c))) ms) i j of
             None \<Rightarrow> mask_at a1 i j | Some v \<Rightarrow> v)"
      using Rment nn h(1,2) unfolding m N_def by simp
    moreover have "mask_at a1 i j"
      using h(1,2) im by (simp add: a1_def a0_def N_def mask_at_def get2_full2)
    ultimately show "mask_at R i j"
      by (simp add: lookup_blocks_miss [OF h(3)])
  qed
  show ?thesis
    by (intro exI [of _ R] conjI) (rule 1 2 3 4 5 6 7)+
qed

lemma floor_log2_53: "\<lfloor>log 2 9007199254740993\<rfloor> = 53"
proof -
  have "\<lfloor>log (real 2) (real 9007199254740993)\<rfloor> = int 53"
    by (subst floor_log_nat_eq_powr_iff) simp_all
  then show ?thesis by simp
qed

lemma to_fl_2_53_1: "to_fl 9007199254740993 = Fin 9007199254740992"
proof -
  have e: "ulp_exp 9007199254740993 = 1" by (simp add: ulp_exp_def floor_log2_53)
  have f: "\<lfloor>9007199254740993 / 2 :: real\<rfloor> = 4503599627370496" by linarith
  have "round_even (9007199254740993 / 2) = 4503599627370496"
    unfolding round_even_def Let_def f by simp
  then have "rnd 9007199254740993 = 9007199254740992" by (simp add: rnd_def e)
  then show ?thesis by (simp add: to_fl_def)
qed


text \<open>
  Claim C8 fails on the code in two ways.  For the empty list the size \<^verbatim>\<open>np.sum([[]])\<close> is
  the double \<open>0.0\<close> and \<^verbatim>\<open>np.full\<close> raises \<^verbatim>\<open>TypeError\<close>.  The result is an array of doubles
  (\<^verbatim>\<open>dtype=float\<close>), so a block is the converted matrix: the complex matrix \<open>[[1 + 2j]]\<close>
  gives \<open>[[1.0]]\<close>, and the integer matrix \<open>[[2\<^sup>5\<^sup>3 + 1]]\<close> gives \<open>[[2\<^sup>5\<^sup>3]]\<close>.
\<close>

theorem concat_connect_counterexample:
  "concat_connect [] (FloatV (Fin 0)) = Inl TypeError \<and>
   concat_connect [\<lparr>arr = \<lparr>shape = [1, 1], data = [ComplexV \<lparr>re = Fin 1, im = Fin 2\<rparr>]\<rparr>, mask = None\<rparr>]
       (FloatV (Fin 0)) =
     Inr \<lparr>arr = \<lparr>shape = [1, 1], data = [Fin 1]\<rparr>, mask = None\<rparr> \<and>
   concat_connect [\<lparr>arr = \<lparr>shape = [1, 1], data = [IntV 9007199254740993]\<rparr>, mask = None\<rparr>]
       (FloatV (Fin 0)) =
     Inr \<lparr>arr = \<lparr>shape = [1, 1], data = [Fin 9007199254740992]\<rparr>, mask = None\<rparr>"
proof -
  have 1: "concat_connect [] (FloatV (Fin 0)) = Inl TypeError"
    by (simp add: concat_connect_def)
  have 2: "concat_connect [\<lparr>arr = \<lparr>shape = [1, 1], data = [ComplexV \<lparr>re = Fin 1, im = Fin 2\<rparr>]\<rparr>, mask = None\<rparr>]
       (FloatV (Fin 0)) =
     Inr \<lparr>arr = \<lparr>shape = [1, 1], data = [Fin 1]\<rparr>, mask = None\<rparr>"
    by (simp add: concat_connect_def ndim_def is_masked_def assign_block_def set_region_def
        tabulate2_def full2_def astype_float_arr_def astype_float_def broadcast_src_def get2_def
        nrows_def ncols_def)
  have 3: "concat_connect [\<lparr>arr = \<lparr>shape = [1, 1], data = [IntV 9007199254740993]\<rparr>, mask = None\<rparr>]
       (FloatV (Fin 0)) =
     Inr \<lparr>arr = \<lparr>shape = [1, 1], data = [Fin 9007199254740992]\<rparr>, mask = None\<rparr>"
    using to_fl_2_53_1
    by (simp add: concat_connect_def ndim_def is_masked_def assign_block_def set_region_def
        tabulate2_def full2_def astype_float_arr_def astype_float_def broadcast_src_def get2_def
        nrows_def ncols_def)
  show ?thesis by (intro conjI) (rule 1 2 3)+
qed

text \<open>
  Claim C8 as amended.  For every list of square matrices \<open>M\<^sub>1 \<dots> M\<^sub>k\<close> of sizes \<open>n\<^sub>1 \<dots> n\<^sub>k\<close> that
  is not empty and every fill value, \<^verbatim>\<open>concat_connect\<close> returns a square matrix of doubles
  of size \<open>n\<^sub>1 + \<dots> + n\<^sub>k\<close>; its consecutive diagonal blocks are the \<open>M\<^sub>i\<close> in input order, every
  entry converted to a double, and every entry outside the blocks is \<^verbatim>\<open>fill_with\<close>
  converted to a double.  A double converts to itself, so that a matrix of doubles is its
  block unchanged.  When no input has a masked entry the result carries no mask;
  otherwise the result is masked outside the blocks and carries each input's mask on its
  block.  For the empty list the call raises \<^verbatim>\<open>TypeError\<close>.
\<close>

theorem concat_connect_amended:
  "(ms \<noteq> [] \<and> (\<forall>c \<in> set ms. wf_marray (shape (arr c) ! 0) c) \<longrightarrow>
     (\<exists>R. concat_connect ms fill_with = Inr R \<and>
           shape (arr R) = [total_size ms, total_size ms] \<and> wf_array (arr R) \<and>
           (\<forall>k < length ms. \<forall>i < block_size ms k. \<forall>j < block_size ms k.
              get2 (arr R) (block_offset ms k + i) (block_offset ms k + j) =
                astype_float (get2 (arr (ms ! k)) i j)) \<and>
           (\<forall>i < total_size ms. \<forall>j < total_size ms.
              (\<forall>k < length ms. \<not> in_block ms k i j) \<longrightarrow> get2 (arr R) i j = astype_float fill_with) \<and>
           (\<not> list_ex is_masked ms \<longrightarrow> mask R = None) \<and>
           (list_ex is_masked ms \<longrightarrow>
              (\<forall>k < length ms. \<forall>i < block_size ms k. \<forall>j < block_size ms k.
                 mask_at R (block_offset ms k + i) (block_offset ms k + j) = mask_at (ms ! k) i j) \<and>
              (\<forall>i < total_size ms. \<forall>j < total_size ms.
                 (\<forall>k < length ms. \<not> in_block ms k i j) \<longrightarrow> mask_at R i j)))) \<and>
   (\<forall>v. astype_float (FloatV v) = v) \<and>
   concat_connect [] fill_with = Inl TypeError"
proof (intro conjI impI allI)
  assume "ms \<noteq> [] \<and> (\<forall>c \<in> set ms. wf_marray (shape (arr c) ! 0) c)"
  then have "ms \<noteq> []" and "\<forall>c \<in> set ms. wf_marray (shape (arr c) ! 0) c" by simp_all
  then show "\<exists>R. concat_connect ms fill_with = Inr R \<and>
           shape (arr R) = [total_size ms, total_size ms] \<and> wf_array (arr R) \<and>
           (\<forall>k < length ms. \<forall>i < block_size ms k. \<forall>j < block_size ms k.
              get2 (arr R) (block_offset ms k + i) (block_offset ms k + j) =
                astype_float (get2 (arr (ms ! k)) i j)) \<and>
           (\<forall>i < total_size ms. \<forall>j < total_size ms.
              (\<forall>k < length ms. \<not> in_block ms k i j) \<longrightarrow> get2 (arr R) i j = astype_float fill_with) \<and>
           (\<not> list_ex is_masked ms \<longrightarrow> mask R = None) \<and>
           (list_ex is_masked ms \<longrightarrow>
              (\<forall>k < length ms. \<forall>i < block_size ms k. \<forall>j < block_size ms k.
                 mask_at R (block_offset ms k + i) (block_offset ms k + j) = mask_at (ms ! k) i j) \<and>
              (\<forall>i < total_size ms. \<forall>j < total_size ms.
                 (\<forall>k < length ms. \<not> in_block ms k i j) \<longrightarrow> mask_at R i j))"
    by (rule concat_connect_blocks)
next
  fix v show "astype_float (FloatV v) = v" by (simp add: astype_float_def)
next
  show "concat_connect [] fill_with = Inl TypeError" by (simp add: concat_connect_def)
qed

theorem concat_connect_amended_witness:
  "(\<exists>R. concat_connect
          [\<lparr>arr = \<lparr>shape = [1, 1], data = [FloatV (Fin 5)]\<rparr>, mask = None\<rparr>,
           \<lparr>arr = \<lparr>shape = [2, 2], data = [FloatV (Fin 1), ComplexV \<lparr>re = Fin 2, im = Fin 7\<rparr>,
                                            FloatV (Fin 3), FloatV (Fin 4)]\<rparr>, mask = None\<rparr>]
          (FloatV (Fin (- 1))) = Inr R \<and>
        shape (arr R) = [3, 3] \<and> get2 (arr R) 0 0 = Fin 5 \<and> get2 (arr R) 1 2 = Fin 2 \<and>
        get2 (arr R) 0 1 = Fin (- 1) \<and> get2 (arr R) 2 0 = Fin (- 1) \<and> mask R = None) \<and>
   (\<exists>R. concat_connect
          [\<lparr>arr = \<lparr>shape = [1, 1], data = [FloatV (Fin 5)]\<rparr>, mask = None\<rparr>,
           \<lparr>arr = \<lparr>shape = [1, 1], data = [FloatV (Fin 9)]\<rparr>,
            mask = Some \<lparr>shape = [1, 1], data = [True]\<rparr>\<rparr>]
          (FloatV (Fin (- 1))) = Inr R \<and>
        shape (arr R) = [2, 2] \<and> \<not> mask_at R 0 0 \<and> mask_at R 1 1 \<and> mask_at R 0 1)"
proof -
  define M1 :: "scalar marray" where "M1 = \<lparr>arr = \<lparr>shape = [1, 1], data = [FloatV (Fin 5)]\<rparr>, mask = None\<rparr>"
  define M2 :: "scalar marray" where
    "M2 = \<lparr>arr = \<lparr>shape = [2, 2], data = [FloatV (Fin 1), ComplexV \<lparr>re = Fin 2, im = Fin 7\<rparr>,
                                            FloatV (Fin 3), FloatV (Fin 4)]\<rparr>, mask = None\<rparr>"
  define M3 :: "scalar marray" where
    "M3 = \<lparr>arr = \<lparr>shape = [1, 1], data = [FloatV (Fin 9)]\<rparr>, mask = Some \<lparr>shape = [1, 1], data = [True]\<rparr>\<rparr>"
  define fv where "fv = FloatV (Fin (- 1))"
  have fvv: "astype_float fv = Fin (- 1)" by (simp add: fv_def astype_float_def)
  have h: "[M1, M2] \<noteq> [] \<and> (\<forall>c \<in> set [M1, M2]. wf_marray (shape (arr c) ! 0) c)"
    by (simp add: M1_def M2_def wf_marray_def arr2_def)
  have ts: "total_size [M1, M2] = 3" by (simp add: total_size_def M1_def M2_def)
  have bo: "block_offset [M1, M2] 0 = 0" "block_offset [M1, M2] 1 = 1"
    "block_offset [M1, M2] (Suc 0) = 1"
    by (simp_all add: block_offset_def M1_def M2_def)
  have bs: "block_size [M1, M2] 0 = 1" "block_size [M1, M2] 1 = 2"
    by (simp_all add: block_size_def M1_def M2_def)
  have nm: "\<not> list_ex is_masked [M1, M2]" by (simp add: is_masked_def M1_def M2_def)
  from concat_connect_amended [where ms = "[M1, M2]" and fill_with = fv, THEN conjunct1, rule_format, OF h]
  obtain R where
    1: "concat_connect [M1, M2] fv = Inr R" and
    2: "shape (arr R) = [total_size [M1, M2], total_size [M1, M2]]" and
    4: "\<forall>k < length [M1, M2]. \<forall>i < block_size [M1, M2] k. \<forall>j < block_size [M1, M2] k.
          get2 (arr R) (block_offset [M1, M2] k + i) (block_offset [M1, M2] k + j) =
          astype_float (get2 (arr ([M1, M2] ! k)) i j)" and
    5: "\<forall>i < total_size [M1, M2]. \<forall>j < total_size [M1, M2].
          (\<forall>k < length [M1, M2]. \<not> in_block [M1, M2] k i j) \<longrightarrow> get2 (arr R) i j = astype_float fv" and
    6: "\<not> list_ex is_masked [M1, M2] \<longrightarrow> mask R = None"
    by (elim exE conjE)
  have s: "shape (arr R) = [3, 3]" using 2 ts by simp
  have "get2 (arr R) (block_offset [M1, M2] 0 + 0) (block_offset [M1, M2] 0 + 0) =
          astype_float (get2 (arr ([M1, M2] ! 0)) 0 0)"
    using 4 [rule_format, of 0 0 0] bs by simp
  then have "get2 (arr R) 0 0 = astype_float (get2 (arr M1) 0 0)" by (simp add: bo)
  moreover have "astype_float (get2 (arr M1) 0 0) = Fin 5"
    by (simp add: M1_def get2_def ncols_def astype_float_def)
  ultimately have e00: "get2 (arr R) 0 0 = Fin 5" by simp
  have "get2 (arr R) (block_offset [M1, M2] 1 + 0) (block_offset [M1, M2] 1 + 1) =
          astype_float (get2 (arr ([M1, M2] ! 1)) 0 1)"
    using 4 [rule_format, of 1 0 1] bs by simp
  then have "get2 (arr R) 1 2 = astype_float (get2 (arr M2) 0 1)" by (simp add: bo numeral_2_eq_2)
  moreover have "astype_float (get2 (arr M2) 0 1) = Fin 2"
    by (simp add: M2_def get2_def ncols_def astype_float_def)
  ultimately have e12: "get2 (arr R) 1 2 = Fin 2" by simp
  have out01: "\<forall>k < length [M1, M2]. \<not> in_block [M1, M2] k 0 1"
    by (simp add: in_block_def bo bs less_Suc_eq)
  have out20: "\<forall>k < length [M1, M2]. \<not> in_block [M1, M2] k 2 0"
    by (simp add: in_block_def bo bs less_Suc_eq)
  have e01: "get2 (arr R) 0 1 = Fin (- 1)" using 5 [rule_format, of 0 1] out01 ts fvv by simp
  have e20: "get2 (arr R) 2 0 = Fin (- 1)" using 5 [rule_format, of 2 0] out20 ts fvv by simp
  have mk: "mask R = None" using 6 nm by simp
  have A: "\<exists>R. concat_connect [M1, M2] fv = Inr R \<and>
        shape (arr R) = [3, 3] \<and> get2 (arr R) 0 0 = Fin 5 \<and> get2 (arr R) 1 2 = Fin 2 \<and>
        get2 (arr R) 0 1 = Fin (- 1) \<and> get2 (arr R) 2 0 = Fin (- 1) \<and> mask R = None"
    by (intro exI [of _ R] conjI) (rule 1 s e00 e12 e01 e20 mk)+
  have h': "[M1, M3] \<noteq> [] \<and> (\<forall>c \<in> set [M1, M3]. wf_marray (shape (arr c) ! 0) c)"
    by (simp add: M1_def M3_def wf_marray_def arr2_def)
  have ts': "total_size [M1, M3] = 2" by (simp add: total_size_def M1_def M3_def)
  have bo': "block_offset [M1, M3] 0 = 0" "block_offset [M1, M3] 1 = 1"
    "block_offset [M1, M3] (Suc 0) = 1"
    by (simp_all add: block_offset_def M1_def M3_def)
  have bs': "block_size [M1, M3] 0 = 1" "block_size [M1, M3] 1 = 1" "block_size [M1, M3] (Suc 0) = 1"
    by (simp_all add: block_size_def M1_def M3_def)
  have im: "list_ex is_masked [M1, M3]" by (simp add: is_masked_def M1_def M3_def)
  from concat_connect_amended [where ms = "[M1, M3]" and fill_with = fv, THEN conjunct1, rule_format, OF h']
  obtain Q where
    q1: "concat_connect [M1, M3] fv = Inr Q" and
    q2: "shape (arr Q) = [total_size [M1, M3], total_size [M1, M3]]" and
    q7: "list_ex is_masked [M1, M3] \<longrightarrow>
              (\<forall>k < length [M1, M3]. \<forall>i < block_size [M1, M3] k. \<forall>j < block_size [M1, M3] k.
                 mask_at Q (block_offset [M1, M3] k + i) (block_offset [M1, M3] k + j) =
                 mask_at ([M1, M3] ! k) i j) \<and>
              (\<forall>i < total_size [M1, M3]. \<forall>j < total_size [M1, M3].
                 (\<forall>k < length [M1, M3]. \<not> in_block [M1, M3] k i j) \<longrightarrow> mask_at Q i j)"
    by (elim exE conjE)
  note q78 = q7 [THEN mp, OF im]
  note q8 = q78 [THEN conjunct1] and q9 = q78 [THEN conjunct2]
  have qs: "shape (arr Q) = [2, 2]" using q2 ts' by simp
  have "mask_at Q (block_offset [M1, M3] 0 + 0) (block_offset [M1, M3] 0 + 0) = mask_at ([M1, M3] ! 0) 0 0"
    using q8 [rule_format, of 0 0 0] bs' by simp
  then have "mask_at Q 0 0 = mask_at M1 0 0" by (simp add: bo')
  moreover have "\<not> mask_at M1 0 0" by (simp add: M1_def mask_at_def)
  ultimately have m00: "\<not> mask_at Q 0 0" by simp
  have "mask_at Q (block_offset [M1, M3] 1 + 0) (block_offset [M1, M3] 1 + 0) = mask_at ([M1, M3] ! 1) 0 0"
    using q8 [rule_format, of 1 0 0] bs' by simp
  then have "mask_at Q 1 1 = mask_at M3 0 0" by (simp add: bo')
  moreover have "mask_at M3 0 0" by (simp add: M3_def mask_at_def get2_def)
  ultimately have m11: "mask_at Q 1 1" by simp
  have out: "\<forall>k < length [M1, M3]. \<not> in_block [M1, M3] k 0 1"
    by (simp add: in_block_def bo' bs' less_Suc_eq)
  have m01: "mask_at Q 0 1" using q9 [rule_format, of 0 1] out ts' by simp
  have B: "\<exists>R. concat_connect [M1, M3] fv = Inr R \<and>
        shape (arr R) = [2, 2] \<and> \<not> mask_at R 0 0 \<and> mask_at R 1 1 \<and> mask_at R 0 1"
    by (intro exI [of _ Q] conjI) (rule q1 qs m00 m11 m01)+
  show ?thesis
    using A B unfolding M1_def M2_def M3_def fv_def by (intro conjI)
qed

section \<open>Contact filter: \<^verbatim>\<open>remove_site_contact\<close>\<close>

text \<open>
  \<^verbatim>\<open>re.findall\<close> with the patterns \<^verbatim>\<open>\D+\<close> and \<^verbatim>\<open>\d+\<close>: the maximal runs of characters
  that satisfy (or fail) the digit test, from left to right.  Labels are ASCII.
\<close>

definition is_digit :: "char \<Rightarrow> bool" where
  "is_digit c = (c \<in> set ''0123456789'')"

fun runs_aux :: "(char \<Rightarrow> bool) \<Rightarrow> string \<Rightarrow> string \<Rightarrow> string list" where
  "runs_aux P cur [] = (if cur = [] then [] else [rev cur])"
| "runs_aux P cur (c # cs) =
     (if P c then runs_aux P (c # cur) cs
      else (if cur = [] then [] else [rev cur]) @ runs_aux P [] cs)"

definition findall_runs :: "(char \<Rightarrow> bool) \<Rightarrow> string \<Rightarrow> string list" where
  "findall_runs P s = runs_aux P [] s"

text \<open>\<^verbatim>\<open>int(s)\<close> on a string of decimal digits and \<^verbatim>\<open>str(n)\<close> on a natural number.\<close>

definition digit_val :: "char \<Rightarrow> nat" where
  "digit_val c = of_char c - 48"

definition int_of_str :: "string \<Rightarrow> nat" where
  "int_of_str s = foldl (\<lambda>n c. 10 * n + digit_val c) 0 s"

fun str_of_nat :: "nat \<Rightarrow> string" where
  "str_of_nat n =
     (if n < 10 then [char_of (48 + n)]
      else str_of_nat (n div 10) @ [char_of (48 + n mod 10)])"

text \<open>
  One row of \<^verbatim>\<open>r\<close>: the first run of non-digits followed by every run of digits.
  \<^verbatim>\<open>findall(r'\D+', k)[0]\<close> raises \<^verbatim>\<open>IndexError\<close> on a label without a non-digit.
\<close>

definition parse_channel :: "string \<Rightarrow> error + string list" where
  "parse_channel k =
     (case findall_runs (\<lambda>c. \<not> is_digit c) k of
        [] \<Rightarrow> Inl IndexError
      | letter # _ \<Rightarrow> Inr (letter # findall_runs is_digit k))"

fun parse_channels :: "string list \<Rightarrow> error + string list list" where
  "parse_channels [] = Inr []"
| "parse_channels (k # ks) =
     (case parse_channel k of
        Inl e \<Rightarrow> Inl e
      | Inr row \<Rightarrow> (case parse_channels ks of Inl e \<Rightarrow> Inl e | Inr rows \<Rightarrow> Inr (row # rows)))"

text \<open>
  \<^verbatim>\<open>np.asarray(r)\<close> gives a two-dimensional array of strings only when the rows have one
  length; rows of different lengths are refused (\<^verbatim>\<open>ValueError\<close>).
\<close>

definition uniform_rows :: "string list list \<Rightarrow> bool" where
  "uniform_rows r = (case r of [] \<Rightarrow> True | row # rows \<Rightarrow> list_all (\<lambda>x. length x = length row) rows)"

text \<open>
  The body of the loop for electrode \<open>i\<close> with row \<open>k\<close>: the boolean vector
  \<^verbatim>\<open>to_remove\<close>.  Reading \<^verbatim>\<open>k[1]\<close> and \<^verbatim>\<open>k[2]\<close> needs three tokens.  In mode
  \<^verbatim>\<open>soft\<close> the rows are compared with the three tokens of the next contact, which needs
  rows of length three.
\<close>

definition to_remove_row :: "string \<Rightarrow> string list list \<Rightarrow> nat \<Rightarrow> string list \<Rightarrow> error + bool list" where
  "to_remove_row mode r i k =
     (if length k < 3 then Inl IndexError
      else
        let letter = k ! 0; digit_1 = int_of_str (k ! 1); digit_2 = int_of_str (k ! 2)
        in if mode = ''soft'' then
             let next_contact = [letter, str_of_nat (digit_1 + 1), str_of_nat (digit_2 + 1)]
             in if length k \<noteq> 3 then Inl ValueError
                else Inr (map (\<lambda>row. row = next_contact) r)
           else Inr ((map (\<lambda>row. row ! 0 = letter) r)[i := False]))"

text \<open>\<^verbatim>\<open>select[i, to_remove] = True\<close>.\<close>

definition set_row_where :: "bool ndarray \<Rightarrow> nat \<Rightarrow> bool list \<Rightarrow> bool ndarray" where
  "set_row_where select i to_remove =
     tabulate2 (nrows select) (ncols select)
       (\<lambda>a b. if a = i \<and> b < length to_remove \<and> to_remove ! b then True else get2 select a b)"

fun contact_loop ::
  "string \<Rightarrow> string list list \<Rightarrow> (nat \<times> string list) list \<Rightarrow> bool ndarray \<Rightarrow> error + bool ndarray" where
  "contact_loop mode r [] select = Inr select"
| "contact_loop mode r ((i, k) # rest) select =
     (case to_remove_row mode r i k of
        Inl e \<Rightarrow> Inl e
      | Inr to_remove \<Rightarrow> contact_loop mode r rest (set_row_where select i to_remove))"

text \<open>\<^verbatim>\<open>a[idx] = v\<close> with a scalar \<open>v\<close>, and \<^verbatim>\<open>np.diag_indices(n)\<close>.\<close>

definition fill_pairs :: "'a ndarray \<Rightarrow> (nat \<times> nat) list \<Rightarrow> 'a \<Rightarrow> 'a ndarray" where
  "fill_pairs a ps v = fold (\<lambda>p b. set2 b (fst p) (snd p) v) ps a"

definition diag_indices :: "nat \<Rightarrow> (nat \<times> nat) list" where
  "diag_indices n = map (\<lambda>i. (i, i)) [0..<n]"

definition astype_int :: "bool ndarray \<Rightarrow> int ndarray" where
  "astype_int a = \<lparr>shape = shape a, data = map (\<lambda>b. if b then 1 else 0) (data a)\<rparr>"

definition astype_bool :: "int ndarray \<Rightarrow> bool ndarray" where
  "astype_bool a = \<lparr>shape = shape a, data = map (\<lambda>x. x \<noteq> 0) (data a)\<rparr>"

definition remove_site_contact ::
  "'a ndarray \<Rightarrow> string list \<Rightarrow> string \<Rightarrow> bool \<Rightarrow> bool \<Rightarrow> error + bool ndarray" where
  "remove_site_contact mat channels mode remove_lower symmetrical =
     (let n_elec = length channels
      in if \<not> (shape mat = [n_elec, n_elec] \<and> mode \<in> set [''soft'', ''hard'']) then Inl AssertionError
         else
           let select = full2 n_elec n_elec False
           in case parse_channels channels of
                Inl e \<Rightarrow> Inl e
              | Inr r \<Rightarrow>
                  if \<not> uniform_rows r then Inl ValueError
                  else
                    (case contact_loop mode r (enumerate 0 r) select of
                       Inl e \<Rightarrow> Inl e
                     | Inr select1 \<Rightarrow>
                         let select2 = fill_pairs select1 (tril_pairs n_elec 0) remove_lower
                         in case (if symmetrical
                                  then (case symmetrize (astype_int select2) of
                                          Inl e \<Rightarrow> Inl e | Inr s \<Rightarrow> Inr (astype_bool s))
                                  else Inr select2) of
                              Inl e \<Rightarrow> Inl e
                            | Inr select3 \<Rightarrow> Inr (fill_pairs select3 (diag_indices n_elec) True)))"

lemma arr2_fill_pairs: "arr2 n m a \<Longrightarrow> arr2 n m (fill_pairs a ps v)"
  unfolding fill_pairs_def by (induction ps arbitrary: a) (auto simp: arr2_set2)

lemma get2_fill_pairs:
  assumes "arr2 n m a" "\<forall>p \<in> set ps. fst p < n \<and> snd p < m" "j < m"
  shows "get2 (fill_pairs a ps v) i j = (if (i, j) \<in> set ps then v else get2 a i j)"
  using assms unfolding fill_pairs_def
proof (induction ps arbitrary: a)
  case Nil
  show ?case by simp
next
  case (Cons p ps)
  obtain pi pj where p: "p = (pi, pj)" by (cases p)
  have b: "pi < n" "pj < m" using Cons.prems(2) p by auto
  have a': "arr2 n m (set2 a pi pj v)" using Cons.prems(1) by (rule arr2_set2)
  have g: "get2 (set2 a pi pj v) i j = (if pi = i \<and> pj = j then v else get2 a i j)"
    using get2_set2 [OF Cons.prems(1) b Cons.prems(3)] .
  have "get2 (fold (\<lambda>p b. set2 b (fst p) (snd p) v) ps (set2 a pi pj v)) i j =
         (if (i, j) \<in> set ps then v else get2 (set2 a pi pj v) i j)"
    using Cons.IH [OF a' _ Cons.prems(3)] Cons.prems(2) by simp
  then show ?case using g p by auto
qed

lemma arr2_set_row_where: "arr2 n m a \<Longrightarrow> arr2 n m (set_row_where a i t)"
  by (simp add: set_row_where_def arr2_def nrows_def ncols_def tabulate2_def)

lemma arr2_contact_loop:
  "arr2 n m select \<Longrightarrow> contact_loop mode r iks select = Inr s \<Longrightarrow> arr2 n m s"
proof (induction iks arbitrary: select)
  case Nil
  then show ?case by simp
next
  case (Cons ik iks)
  obtain i k where ik: "ik = (i, k)" by (cases ik)
  from Cons.prems(2) ik obtain t where t: "to_remove_row mode r i k = Inr t"
    and l: "contact_loop mode r iks (set_row_where select i t) = Inr s"
    by (auto split: sum.splits)
  show ?case using Cons.IH [OF arr2_set_row_where [OF Cons.prems(1)] l] .
qed

lemma arr2_astype_int: "arr2 n m a \<Longrightarrow> arr2 n m (astype_int a)"
  by (simp add: arr2_def astype_int_def)

lemma arr2_astype_bool: "arr2 n m a \<Longrightarrow> arr2 n m (astype_bool a)"
  by (simp add: arr2_def astype_bool_def)

lemma remove_site_contact_diagonal:
  assumes "remove_site_contact mat channels mode remove_lower symmetrical = Inr M"
  shows "arr2 (length channels) (length channels) M \<and> (\<forall>i < length channels. get2 M i i)"
proof -
  let ?n = "length channels"
  from assms obtain r select1 select3 where
    l: "contact_loop mode r (enumerate 0 r) (full2 ?n ?n False) = Inr select1" and
    s3: "(if symmetrical
          then (case symmetrize (astype_int (fill_pairs select1 (tril_pairs ?n 0) remove_lower)) of
                  Inl e \<Rightarrow> Inl e | Inr s \<Rightarrow> Inr (astype_bool s))
          else Inr (fill_pairs select1 (tril_pairs ?n 0) remove_lower)) = Inr select3" and
    M: "M = fill_pairs select3 (diag_indices ?n) True"
    by (auto simp: remove_site_contact_def Let_def split: if_splits sum.splits)
  have a1: "arr2 ?n ?n select1" using arr2_contact_loop [OF arr2_full2 l] .
  have a2: "arr2 ?n ?n (fill_pairs select1 (tril_pairs ?n 0) remove_lower)"
    using a1 by (rule arr2_fill_pairs)
  have a3: "arr2 ?n ?n select3"
  proof (cases symmetrical)
    case True
    from symmetrize_entries [OF arr2_astype_int [OF a2]] obtain S where
      "symmetrize (astype_int (fill_pairs select1 (tril_pairs ?n 0) remove_lower)) = Inr S"
      "arr2 ?n ?n S" by blast
    then show ?thesis using s3 True by (auto simp: arr2_astype_bool)
  next
    case False
    then show ?thesis using s3 a2 by simp
  qed
  have b: "\<forall>p \<in> set (diag_indices ?n). fst p < ?n \<and> snd p < ?n" by (auto simp: diag_indices_def)
  have "get2 M i i" if "i < ?n" for i
    using get2_fill_pairs [OF a3 b that, of True i] that by (simp add: M diag_indices_def)
  then show ?thesis using arr2_fill_pairs [OF a3] M by simp
qed

lemma parse_single_group:
  "parse_channels [''A1'', ''A2'', ''B1''] = Inr [[''A'', ''1''], [''A'', ''2''], [''B'', ''1'']]"
  by code_simp

lemma single_group_fails:
  "remove_site_contact mat [''A1'', ''A2'', ''B1''] mode remove_lower symmetrical \<noteq> Inr M"
  unfolding remove_site_contact_def Let_def parse_single_group
  by (simp add: to_remove_row_def del: parse_channels.simps)

text \<open>
  Claim C1 fails on the code: each of the labels \<^verbatim>\<open>A1\<close>, \<^verbatim>\<open>A2\<close>, \<^verbatim>\<open>B1\<close> has one group of
  digits, a row of \<^verbatim>\<open>r\<close> has two tokens, and reading \<^verbatim>\<open>k[2]\<close> raises \<^verbatim>\<open>IndexError\<close>
  before the mode is looked at.  No mask is returned in either mode.
\<close>

theorem remove_site_contact_counterexample:
  "remove_site_contact (full2 3 3 (0::int)) [''A1'', ''A2'', ''B1''] ''soft'' False False = Inl IndexError \<and>
   remove_site_contact (full2 3 3 (0::int)) [''A1'', ''A2'', ''B1''] ''hard'' False False = Inl IndexError \<and>
   \<not> (\<exists>M. remove_site_contact (full2 3 3 (0::int)) [''A1'', ''A2'', ''B1''] ''soft'' False False = Inr M \<and>
          get2 M 0 1)"
proof (intro conjI)
  show "remove_site_contact (full2 3 3 (0::int)) [''A1'', ''A2'', ''B1''] ''soft'' False False = Inl IndexError"
    by code_simp
  show "remove_site_contact (full2 3 3 (0::int)) [''A1'', ''A2'', ''B1''] ''hard'' False False = Inl IndexError"
    by code_simp
  show "\<not> (\<exists>M. remove_site_contact (full2 3 3 (0::int)) [''A1'', ''A2'', ''B1''] ''soft'' False False = Inr M \<and>
          get2 M 0 1)"
    using single_group_fails by blast
qed

text \<open>
  Claim C1 as amended.  Labels with a letter prefix and two contact numbers are what the
  code parses.  For the channels \<^verbatim>\<open>A1-A2\<close>, \<^verbatim>\<open>A2-A3\<close>, \<^verbatim>\<open>B1-B2\<close> and the default flags:
  in mode \<^verbatim>\<open>soft\<close> index 0 marks index 1, the next contact \<open>(A, 2, 3) = (A, 1 + 1, 2 + 1)\<close>,
  and not index 2; in mode \<^verbatim>\<open>hard\<close> index 0 marks exactly the other channels of prefix
  \<^verbatim>\<open>A\<close>, which is index 1.  Whenever a mask is returned, for any input and any mode, its
  diagonal is \<open>True\<close>.  For the channels \<^verbatim>\<open>A1\<close>, \<^verbatim>\<open>A2\<close>, \<^verbatim>\<open>B1\<close> no mask is returned,
  whatever the mode and the flags.
\<close>

theorem remove_site_contact_amended:
  "(\<exists>M. remove_site_contact (full2 3 3 (0::int)) [''A1-A2'', ''A2-A3'', ''B1-B2''] ''soft'' False False = Inr M \<and>
      get2 M 0 1 \<and> \<not> get2 M 0 2) \<and>
   (\<exists>M. remove_site_contact (full2 3 3 (0::int)) [''A1-A2'', ''A2-A3'', ''B1-B2''] ''hard'' False False = Inr M \<and>
      get2 M 0 1 \<and> \<not> get2 M 0 2) \<and>
   (\<forall>(mat :: 'a ndarray) channels mode remove_lower symmetrical M.
      remove_site_contact mat channels mode remove_lower symmetrical = Inr M \<longrightarrow>
      shape M = [length channels, length channels] \<and> (\<forall>i < length channels. get2 M i i)) \<and>
   (\<forall>(mat :: 'a ndarray) mode remove_lower symmetrical M.
      remove_site_contact mat [''A1'', ''A2'', ''B1''] mode remove_lower symmetrical \<noteq> Inr M)"
proof (intro conjI allI impI)
  let ?M = "\<lparr>shape = [3, 3], data = [True, True, False, False, True, False, False, False, True]\<rparr>"
  have g: "get2 ?M 0 1 \<and> \<not> get2 ?M 0 2" by (simp add: get2_def ncols_def)
  have "remove_site_contact (full2 3 3 (0::int)) [''A1-A2'', ''A2-A3'', ''B1-B2''] ''soft'' False False = Inr ?M"
    by code_simp
  then show "\<exists>M. remove_site_contact (full2 3 3 (0::int)) [''A1-A2'', ''A2-A3'', ''B1-B2''] ''soft'' False False = Inr M \<and>
      get2 M 0 1 \<and> \<not> get2 M 0 2"
    using g by blast
  have "remove_site_contact (full2 3 3 (0::int)) [''A1-A2'', ''A2-A3'', ''B1-B2''] ''hard'' False False = Inr ?M"
    by code_simp
  then show "\<exists>M. remove_site_contact (full2 3 3 (0::int)) [''A1-A2'', ''A2-A3'', ''B1-B2''] ''hard'' False False = Inr M \<and>
      get2 M 0 1 \<and> \<not> get2 M 0 2"
    using g by blast
next
  fix mat :: "'a ndarray" and channels mode remove_lower symmetrical M
  assume "remove_site_contact mat channels mode remove_lower symmetrical = Inr M"
  from remove_site_contact_diagonal [OF this]
  show "shape M = [length channels, length channels]" by (simp add: arr2_def)
next
  fix mat :: "'a ndarray" and channels mode remove_lower symmetrical M i
  assume "remove_site_contact mat channels mode remove_lower symmetrical = Inr M" "i < length channels"
  then show "get2 M i i" using remove_site_contact_diagonal by blast
next
  fix mat :: "'a ndarray" and mode remove_lower symmetrical M
  show "remove_site_contact mat [''A1'', ''A2'', ''B1''] mode remove_lower symmetrical \<noteq> Inr M"
    by (rule single_group_fails)
qed

theorem remove_site_contact_amended_witness:
  "\<exists>M. remove_site_contact (full2 3 3 (0::int)) [''A1-A2'', ''A2-A3'', ''B1-B2''] ''soft'' False False = Inr M \<and>
     get2 M 0 1 \<and> \<not> get2 M 0 2 \<and> get2 M 0 0 \<and> get2 M 1 1 \<and> get2 M 2 2"
proof -
  note T = remove_site_contact_amended [where 'a = int]
  from T obtain M where
    r: "remove_site_contact (full2 3 3 (0::int)) [''A1-A2'', ''A2-A3'', ''B1-B2''] ''soft'' False False = Inr M"
    and g: "get2 M 0 1" "\<not> get2 M 0 2"
    by (elim exE conjE)
  from T have d: "\<forall>(mat :: int ndarray) channels mode remove_lower symmetrical M.
      remove_site_contact mat channels mode remove_lower symmetrical = Inr M \<longrightarrow>
      shape M = [length channels, length channels] \<and> (\<forall>i < length channels. get2 M i i)"
    by (elim conjE)
  from d r have "\<forall>i < length [''A1-A2'', ''A2-A3'', ''B1-B2'']. get2 M i i" by blast
  then have "get2 M 0 0" "get2 M 1 1" "get2 M 2 2" by simp_all
  then show ?thesis using r g by blast
qed

section \<open>Annotation tables and grouping\<close>

text \<open>
  A \<^verbatim>\<open>pandas.DataFrame\<close> with the default integer index: named columns in their order,
  each a column of labels or of numbers, all of one length.  Row labels are the row
  positions.
\<close>

datatype 'a column = Labels "string list" | Numbers "'a list"

datatype 'a key = KLabel string | KNumber 'a

type_synonym 'a table = "(string \<times> 'a column) list"

definition keys :: "'a table \<Rightarrow> string list" where
  "keys df = map fst df"

definition column_length :: "'a column \<Rightarrow> nat" where
  "column_length c = (case c of Labels ls \<Rightarrow> length ls | Numbers xs \<Rightarrow> length xs)"

definition table_len :: "'a table \<Rightarrow> nat" where
  "table_len df = (case df of [] \<Rightarrow> 0 | (name, c) # rest \<Rightarrow> column_length c)"

text \<open>
  The distinct values of a column in the order of their first appearance, and the row
  positions that hold a value.
\<close>

definition uniques :: "'k list \<Rightarrow> 'k list" where
  "uniques xs = rev (remdups (rev xs))"

definition positions :: "'k \<Rightarrow> 'k list \<Rightarrow> nat list" where
  "positions k xs = filter (\<lambda>i. xs ! i = k) [0..<length xs]"

text \<open>
  \<^verbatim>\<open>df.groupby(col, sort=...).groups\<close>: the group keys with the row positions of each
  group.  With \<^verbatim>\<open>sort=True\<close>, the default of \<^verbatim>\<open>groupby\<close>, the keys are sorted; with
  \<^verbatim>\<open>sort=False\<close> they stand in the order of first appearance.
\<close>

definition groups_sorted :: "('k::linorder) list \<Rightarrow> ('k \<times> nat list) list" where
  "groups_sorted xs = map (\<lambda>k. (k, positions k xs)) (sort_key (\<lambda>k. k) (uniques xs))"

definition groups_unsorted :: "'k list \<Rightarrow> ('k \<times> nat list) list" where
  "groups_unsorted xs = map (\<lambda>k. (k, positions k xs)) (uniques xs)"

definition groupby_sorted :: "('a::linorder) column \<Rightarrow> ('a key \<times> nat list) list" where
  "groupby_sorted c =
     (case c of
        Labels ls \<Rightarrow> map (\<lambda>(k, g). (KLabel k, g)) (groups_sorted ls)
      | Numbers xs \<Rightarrow> map (\<lambda>(k, g). (KNumber k, g)) (groups_sorted xs))"

definition groupby_unsorted :: "'a column \<Rightarrow> ('a key \<times> nat list) list" where
  "groupby_unsorted c =
     (case c of
        Labels ls \<Rightarrow> map (\<lambda>(k, g). (KLabel k, g)) (groups_unsorted ls)
      | Numbers xs \<Rightarrow> map (\<lambda>(k, g). (KNumber k, g)) (groups_unsorted xs))"

section \<open>Anatomical reordering: \<^verbatim>\<open>anat_based_reorder\<close>\<close>

text \<open>Reading one element of a Python sequence or of an array, with the bounds check.\<close>

definition index_at :: "nat list \<Rightarrow> nat \<Rightarrow> error + nat" where
  "index_at xs k = (if k < length xs then Inr (xs ! k) else Inl IndexError)"

definition getitem2 :: "'a ndarray \<Rightarrow> nat \<Rightarrow> nat \<Rightarrow> error + 'a" where
  "getitem2 a i j = (if i < nrows a \<and> j < ncols a then Inr (get2 a i j) else Inl IndexError)"

definition setitem2 :: "'a ndarray \<Rightarrow> nat \<Rightarrow> nat \<Rightarrow> 'a \<Rightarrow> error + 'a ndarray" where
  "setitem2 a i j v = (if i < nrows a \<and> j < ncols a then Inr (set2 a i j v) else Inl IndexError)"

text \<open>
  The loop \<^verbatim>\<open>for k, i in pairs: c_r[min(...), max(...)] = c[k, i]\<close>.
\<close>

fun reorder_loop :: "'a ndarray \<Rightarrow> nat list \<Rightarrow> (nat \<times> nat) list \<Rightarrow> 'a ndarray \<Rightarrow> error + 'a ndarray" where
  "reorder_loop c index [] c_r = Inr c_r"
| "reorder_loop c index ((k, i) # pairs) c_r =
     (case index_at index k of
        Inl e \<Rightarrow> Inl e
      | Inr ik \<Rightarrow>
          (case index_at index i of
             Inl e \<Rightarrow> Inl e
           | Inr ii \<Rightarrow>
               (case getitem2 c k i of
                  Inl e \<Rightarrow> Inl e
                | Inr v \<Rightarrow>
                    (case setitem2 c_r (min ik ii) (max ik ii) v of
                       Inl e \<Rightarrow> Inl e
                     | Inr c_r' \<Rightarrow> reorder_loop c index pairs c_r'))))"

text \<open>
  \<^verbatim>\<open>np.concatenate\<close> of the per-group index lists; it refuses an empty list of groups.
\<close>

definition concatenate_groups :: "('k \<times> nat list) list \<Rightarrow> error + nat list" where
  "concatenate_groups grp = (if grp = [] then Inl ValueError else Inr (concat (map snd grp)))"

definition zeros_like :: "('a::zero) ndarray \<Rightarrow> 'a ndarray" where
  "zeros_like a = \<lparr>shape = shape a, data = map (\<lambda>x. 0) (data a)\<rparr>"

definition anat_based_reorder ::
  "('a::{zero,linorder}) ndarray \<Rightarrow> 'a table \<Rightarrow> string \<Rightarrow> string \<Rightarrow>
     error + ('a ndarray \<times> string list \<times> nat list)" where
  "anat_based_reorder c df col part =
     (if ndim c \<noteq> 2 then Inl AssertionError
      else case map_of df col of
        None \<Rightarrow> Inl AssertionError
      | Some column \<Rightarrow>
          let n_elec = shape c ! 0;
              grp = groupby_sorted column;
              labels = keys df
          in case concatenate_groups grp of
               Inl e \<Rightarrow> Inl e
             | Inr index \<Rightarrow>
                 (case get_pairs_idx n_elec part of
                    Inl e \<Rightarrow> Inl e
                  | Inr idx \<Rightarrow>
                      let pairs = c_stack idx;
                          c_r = zeros_like c
                      in case reorder_loop c index pairs c_r of
                           Inl e \<Rightarrow> Inl e
                         | Inr c_r' \<Rightarrow> Inr (c_r', labels, index)))"

lemma anat_based_reorder_index:
  assumes "anat_based_reorder c df col part = Inr (c_r, labels, index)"
  shows "\<exists>column. map_of df col = Some column \<and>
           index = concat (map snd (groupby_sorted column)) \<and> labels = keys df"
  using assms
  by (auto simp: anat_based_reorder_def Let_def concatenate_groups_def
      split: if_splits option.splits sum.splits)

lemma groupby_sorted_labels:
  "map fst (groupby_sorted (Labels ls)) = map KLabel (sort_key (\<lambda>k. k) (uniques ls))"
  by (simp add: groupby_sorted_def groups_sorted_def comp_def case_prod_beta)

text \<open>
  Claim C2 on the code.  \<^verbatim>\<open>anat_based_reorder\<close> calls \<^verbatim>\<open>df.groupby(col)\<close> with the default
  \<^verbatim>\<open>sort=True\<close>, so the groups stand in the sorted order of the column's values, not in
  the order of first appearance that \<^verbatim>\<open>anat_based_mean\<close> obtains with \<^verbatim>\<open>sort=False\<close>.
  For a \<open>2 \<times> 2\<close> matrix and the column \<^verbatim>\<open>['b', 'a']\<close> the returned index array is
  \<open>[1, 0]\<close>; the groups in order of first appearance concatenate to \<open>[0, 1]\<close>.
\<close>

theorem anat_based_reorder_group_order:
  "anat_based_reorder \<lparr>shape = [2, 2], data = [0, 7, 0, 0 :: int]\<rparr>
      [(''roi'', Labels [''b'', ''a''])] ''roi'' ''upper'' =
     Inr (\<lparr>shape = [2, 2], data = [0, 7, 0, 0]\<rparr>, [''roi''], [1, 0]) \<and>
   concat (map snd (groupby_unsorted (Labels [''b'', ''a'']) :: (int key \<times> nat list) list)) = [0, 1]"
proof
  show "anat_based_reorder \<lparr>shape = [2, 2], data = [0, 7, 0, 0 :: int]\<rparr>
      [(''roi'', Labels [''b'', ''a''])] ''roi'' ''upper'' =
     Inr (\<lparr>shape = [2, 2], data = [0, 7, 0, 0]\<rparr>, [''roi''], [1, 0])"
    by code_simp
  show "concat (map snd (groupby_unsorted (Labels [''b'', ''a'']) :: (int key \<times> nat list) list)) = [0, 1]"
    by code_simp
qed

section \<open>Anatomical means: \<^verbatim>\<open>anat_based_mean\<close>\<close>

text \<open>
  The argument \<^verbatim>\<open>xyz\<close>: \<^verbatim>\<open>None\<close>, a numpy array, or any other object (a list, say).
\<close>

datatype 'a xyz_arg = XyzNone | XyzArray "'a ndarray" | XyzOther

text \<open>
  What the call returns: the pair \<^verbatim>\<open>(con, labels)\<close>, the triple with the mean
  coordinates, or \<^verbatim>\<open>None\<close> when the function falls off its end.
\<close>

datatype 'a mean_result =
    ReturnNone
  | ReturnPair "'a marray" "'a key list"
  | ReturnTriple "'a marray" "'a key list" "'a ndarray"

text \<open>
  \<^verbatim>\<open>np.fill_diagonal(a, v)\<close> writes the entries \<open>(i, i)\<close> in place; through a masked array
  it also clears the mask there.  \<^verbatim>\<open>np.triu\<close> keeps the entries with \<open>i \<le> j\<close>.
\<close>

definition fill_diagonal :: "'a ndarray \<Rightarrow> 'a \<Rightarrow> 'a ndarray" where
  "fill_diagonal a v = fill_pairs a (diag_indices (min (nrows a) (ncols a))) v"

definition fill_diagonal_masked :: "'a marray \<Rightarrow> 'a \<Rightarrow> 'a marray" where
  "fill_diagonal_masked x v =
     \<lparr>arr = fill_diagonal (arr x) v,
      mask = (case mask x of None \<Rightarrow> None | Some m \<Rightarrow> Some (fill_diagonal m False))\<rparr>"

definition triu_fill :: "'a \<Rightarrow> 'a ndarray \<Rightarrow> 'a ndarray" where
  "triu_fill z a = tabulate2 (nrows a) (ncols a) (\<lambda>i j. if i \<le> j then get2 a i j else z)"

text \<open>
  \<^verbatim>\<open>x += x.T\<close> on a masked array, in place: the mask becomes \<open>mask \<or> mask\<^sup>T\<close>, and the
  transposed values are added where the new mask is clear.
\<close>

definition iadd_transpose_masked :: "('a::{plus,zero}) ndarray \<Rightarrow> bool ndarray \<Rightarrow> 'a marray" where
  "iadd_transpose_masked d m =
     (let m' = tabulate2 (nrows m) (ncols m) (\<lambda>i j. get2 m i j \<or> get2 m j i)
      in \<lparr>arr = tabulate2 (nrows d) (ncols d)
                  (\<lambda>i j. get2 d i j + (if get2 m' i j then 0 else get2 d j i)),
           mask = Some m'\<rparr>)"

text \<open>
  \<^verbatim>\<open>x[_r, cols]\<close> for a column of row indices and a row of column indices: the block of
  the entries \<open>(i, j)\<close>, and its \<^verbatim>\<open>mean()\<close>.  On a masked array the mean runs over the
  unmasked entries and is itself masked (\<open>None\<close>) when there is none.
\<close>

definition block_values :: "'a ndarray \<Rightarrow> nat list \<Rightarrow> nat list \<Rightarrow> 'a list" where
  "block_values a rows cols = [get2 a i j. i \<leftarrow> rows, j \<leftarrow> cols]"

definition mean :: "('a::field) list \<Rightarrow> 'a" where
  "mean vs = sum_list vs / of_nat (length vs)"

definition masked_mean :: "('a::field) marray \<Rightarrow> nat list \<Rightarrow> nat list \<Rightarrow> 'a option" where
  "masked_mean x rows cols =
     (let vs = [get2 (arr x) i j. i \<leftarrow> rows, j \<leftarrow> cols, \<not> mask_at x i j]
      in if vs = [] then None else Some (mean vs))"

definition rois_in_bounds :: "'a ndarray \<Rightarrow> nat list list \<Rightarrow> bool" where
  "rois_in_bounds a rois = list_all (\<lambda>i. i < nrows a \<and> i < ncols a) (concat rois)"

text \<open>The loops over the pairs of groups, for a plain and for a masked array.\<close>

definition roi_means :: "('a::field) ndarray \<Rightarrow> nat list list \<Rightarrow> 'a marray" where
  "roi_means a rois =
     \<lparr>arr = \<lparr>shape = [length rois, length rois],
              data = [mean (block_values a rows cols). rows \<leftarrow> rois, cols \<leftarrow> rois]\<rparr>,
      mask = None\<rparr>"

definition roi_means_masked :: "('a::field) marray \<Rightarrow> nat list list \<Rightarrow> 'a marray" where
  "roi_means_masked x rois =
     (let cells = [masked_mean x rows cols. rows \<leftarrow> rois, cols \<leftarrow> rois]
      in \<lparr>arr = \<lparr>shape = [length rois, length rois],
                   data = map (\<lambda>c. case c of None \<Rightarrow> 1 | Some v \<Rightarrow> v) cells\<rparr>,
           mask = (if list_ex (\<lambda>c. c = None) cells
                   then Some \<lparr>shape = [length rois, length rois], data = map (\<lambda>c. c = None) cells\<rparr>
                   else None)\<rparr>)"

text \<open>
  \<^verbatim>\<open>df[name] = values\<close> in place: the column is replaced, or appended when new.
\<close>

fun set_column :: "'a table \<Rightarrow> string \<Rightarrow> 'a column \<Rightarrow> 'a table" where
  "set_column [] name c = [(name, c)]"
| "set_column ((n, c') # rest) name c =
     (if n = name then (n, c) # rest else (n, c') # set_column rest name c)"

definition column_of :: "'a ndarray \<Rightarrow> nat \<Rightarrow> 'a list" where
  "column_of a j = map (\<lambda>i. get2 a i j) [0..<nrows a]"

definition number_column :: "'a table \<Rightarrow> string \<Rightarrow> 'a list" where
  "number_column df name = (case map_of df name of Some (Numbers xs) \<Rightarrow> xs | _ \<Rightarrow> [])"

text \<open>
  The mean coordinates: the table, with its new columns, is grouped again, the rows of
  the labels are looked up (\<^verbatim>\<open>KeyError\<close> when a label is no longer a key), and the columns
  \<^verbatim>\<open>X\<close>, \<^verbatim>\<open>Y\<close>, \<^verbatim>\<open>Z\<close> of the group means are returned.
\<close>

definition group_centroids :: "('a::field) table \<Rightarrow> string \<Rightarrow> 'a key list \<Rightarrow> error + 'a ndarray" where
  "group_centroids df col labels =
     (case map_of df col of
        None \<Rightarrow> Inl KeyError
      | Some column \<Rightarrow>
          let gp = groupby_unsorted column
          in if \<not> list_all (\<lambda>l. l \<in> set (map fst gp)) labels then Inl KeyError
             else Inr \<lparr>shape = [length labels, 3],
                       data = [mean (map (\<lambda>i. number_column df name ! i) (the (map_of gp l))).
                               l \<leftarrow> labels, name \<leftarrow> [''X'', ''Y'', ''Z'']]\<rparr>)"

text \<open>
  The function, with the final values of the caller's array \<open>x\<close> and table \<open>df\<close> next to
  the result: \<^verbatim>\<open>np.fill_diagonal(x, 0.)\<close>, \<^verbatim>\<open>x.mask = ...\<close>, \<^verbatim>\<open>x += x.T\<close> on a masked \<open>x\<close>
  and \<^verbatim>\<open>df['X'] = ...\<close> write into the caller's objects; \<^verbatim>\<open>x = np.triu(x)\<close> rebinds the
  local name to a new array.  The parameter \<^verbatim>\<open>fill_with\<close> is not used by the body.
\<close>

definition anat_based_mean ::
  "('a::field) marray \<Rightarrow> 'a table \<Rightarrow> string \<Rightarrow> 'a \<Rightarrow> 'a xyz_arg \<Rightarrow>
     (error + 'a mean_result) \<times> 'a marray \<times> 'a table" where
  "anat_based_mean x df col fill_with xyz =
     (if ndim (arr x) \<noteq> 2 then (Inl AssertionError, x, df)
      else case map_of df col of
        None \<Rightarrow> (Inl AssertionError, x, df)
      | Some column \<Rightarrow>
          let gp = groupby_unsorted column;
              labels = map fst gp;
              rois = map snd gp;
              x1 = fill_diagonal_masked x 0;
              is_m = is_masked x1;
              x2 = (if is_m
                    then (case mask x1 of
                            None \<Rightarrow> x1
                          | Some m \<Rightarrow> x1\<lparr>mask := Some (fill_diagonal (triu_fill False m) True)\<rparr>)
                    else x1)
          in if nrows (arr x2) \<noteq> ncols (arr x2) then (Inl ValueError, x2, df)
             else
               let x3 = (if is_m
                         then (case mask x2 of
                                 None \<Rightarrow> x2
                               | Some m \<Rightarrow> iadd_transpose_masked (arr x2) m)
                         else x2);
                   xl = (if is_m then arr x3
                         else add_arr (triu_fill 0 (arr x1)) (transpose_arr (triu_fill 0 (arr x1))))
               in if \<not> rois_in_bounds xl rois then (Inl IndexError, x3, df)
                  else
                    let con = (if is_m then roi_means_masked x3 rois else roi_means xl rois)
                    in case xyz of
                         XyzNone \<Rightarrow> (Inr (ReturnPair con labels), x3, df)
                       | XyzOther \<Rightarrow> (Inr ReturnNone, x3, df)
                       | XyzArray a \<Rightarrow>
                           if ndim a = 0 then (Inl IndexError, x3, df)
                           else if table_len df \<noteq> shape a ! 0 then (Inr ReturnNone, x3, df)
                           else if ndim a = 1 then (Inl IndexError, x3, df)
                           else if ndim a \<noteq> 2 then (Inl ValueError, x3, df)
                           else if ncols a < 3 then (Inl IndexError, x3, df)
                           else
                             let df1 = set_column df ''X'' (Numbers (column_of a 0));
                                 df2 = set_column df1 ''Y'' (Numbers (column_of a 1));
                                 df3 = set_column df2 ''Z'' (Numbers (column_of a 2))
                             in case group_centroids df3 col labels of
                                  Inl e \<Rightarrow> (Inl e, x3, df3)
                                | Inr xyz_r \<Rightarrow> (Inr (ReturnTriple con labels xyz_r), x3, df3))"

text \<open>
  Claim C10.  When the call with \<^verbatim>\<open>xyz=None\<close> succeeds, the same call with an \<^verbatim>\<open>xyz\<close>
  that is not a numpy array, or that is an array whose first dimension differs from the
  number of table rows, raises nothing and returns \<^verbatim>\<open>None\<close>: neither branch of the
  final \<^verbatim>\<open>if\<close>/\<^verbatim>\<open>elif\<close> is taken.
\<close>

theorem anat_based_mean_invalid_xyz:
  assumes "fst (anat_based_mean x df col fill_with XyzNone) = Inr r"
    and "xyz = XyzOther \<or> (\<exists>a. xyz = XyzArray a \<and> 0 < ndim a \<and> shape a ! 0 \<noteq> table_len df)"
  shows "fst (anat_based_mean x df col fill_with xyz) = Inr ReturnNone"
  using assms
  by (auto simp: anat_based_mean_def Let_def split: if_splits option.splits)

theorem anat_based_mean_invalid_xyz_witness:
  "fst (anat_based_mean \<lparr>arr = \<lparr>shape = [2, 2], data = [5, 7, 0, 3 :: rat]\<rparr>, mask = None\<rparr>
     [(''roi'', Labels [''b'', ''a''])] ''roi'' 0
     (XyzArray \<lparr>shape = [3, 3], data = [1, 2, 3, 4, 5, 6, 7, 8, 9]\<rparr>)) = Inr ReturnNone \<and>
   fst (anat_based_mean \<lparr>arr = \<lparr>shape = [2, 2], data = [5, 7, 0, 3 :: rat]\<rparr>, mask = None\<rparr>
     [(''roi'', Labels [''b'', ''a''])] ''roi'' 0 XyzOther) = Inr ReturnNone"
proof -
  let ?x = "\<lparr>arr = \<lparr>shape = [2, 2], data = [5, 7, 0, 3 :: rat]\<rparr>, mask = None\<rparr>"
  let ?df = "[(''roi'', Labels [''b'', ''a''])] :: rat table"
  let ?a = "\<lparr>shape = [3, 3], data = [1, 2, 3, 4, 5, 6, 7, 8, 9 :: rat]\<rparr>"
  have ok: "fst (anat_based_mean ?x ?df ''roi'' 0 XyzNone) =
      Inr (ReturnPair \<lparr>arr = \<lparr>shape = [2, 2], data = [0, 7, 7, 0]\<rparr>, mask = None\<rparr>
        [KLabel ''b'', KLabel ''a''])"
    by code_simp
  have h1: "XyzArray ?a = XyzOther \<or>
      (\<exists>a. XyzArray ?a = XyzArray a \<and> 0 < ndim a \<and> shape a ! 0 \<noteq> table_len ?df)"
    by (simp add: ndim_def table_len_def column_length_def)
  have h2: "XyzOther = XyzOther \<or>
      (\<exists>a. (XyzOther :: rat xyz_arg) = XyzArray a \<and> 0 < ndim a \<and> shape a ! 0 \<noteq> table_len ?df)"
    by simp
  show ?thesis
    using anat_based_mean_invalid_xyz [OF ok h1] anat_based_mean_invalid_xyz [OF ok h2] by simp
qed

section \<open>Significance of the decoding accuracy: \<^verbatim>\<open>classify.stat\<close>\<close>

text \<open>\<^verbatim>\<open>str.lower\<close> and \<^verbatim>\<open>str.find\<close> on ASCII strings; \<^verbatim>\<open>find\<close> gives \<open>-1\<close> when absent.\<close>

definition lower_char :: "char \<Rightarrow> char" where
  "lower_char c =
     (if (65::nat) \<le> of_char c \<and> of_char c \<le> (90::nat) then char_of (of_char c + (32::nat)) else c)"

definition lower :: "string \<Rightarrow> string" where
  "lower s = map lower_char s"

fun find_from :: "string \<Rightarrow> string \<Rightarrow> nat \<Rightarrow> int" where
  "find_from sub [] i = (if sub = [] then int i else - 1)"
| "find_from sub (c # cs) i =
     (if take (length sub) (c # cs) = sub then int i else find_from sub cs (Suc i))"

definition find :: "string \<Rightarrow> string \<Rightarrow> int" where
  "find s sub = find_from sub s 0"

text \<open>
  \<^verbatim>\<open>_classifyPerm\<close>: the three permutation schemes are compared by name, and a method
  that matches none of them falls off the end of the function, which returns \<^verbatim>\<open>None\<close>.
  The scores of a scheme (shuffling, classifier and cross-validation) are a parameter.
\<close>

definition classifyPerm ::
  "(string \<Rightarrow> 'f \<Rightarrow> 'y \<Rightarrow> 'c \<Rightarrow> 'v \<Rightarrow> nat \<Rightarrow> 'd list) \<Rightarrow>
   'f \<Rightarrow> 'y \<Rightarrow> 'c \<Rightarrow> 'v \<Rightarrow> string \<Rightarrow> nat \<Rightarrow> 'd list option" where
  "classifyPerm cvscores x y clf cv method n_perm =
     (if method = ''label_rnd'' then Some (cvscores ''label_rnd'' x y clf cv n_perm)
      else if method = ''full_rnd'' then Some (cvscores ''full_rnd'' x y clf cv n_perm)
      else if method = ''intra_rnd'' then Some (cvscores ''intra_rnd'' x y clf cv n_perm)
      else None)"

text \<open>
  The object: the label vector, the classifier and the cross-validation are opaque.
\<close>

record ('y, 'c, 'v) classify =
  y :: 'y
  clf :: 'c
  cv :: 'v

text \<open>
  \<^verbatim>\<open>classify.stat\<close>.  The functions \<^verbatim>\<open>binostatinv\<close> and \<^verbatim>\<open>perm2pval\<close> of the module
  \<^verbatim>\<open>statistics\<close>, and \<^verbatim>\<open>checkXY\<close>, whose end lies outside the source at hand, are
  parameters; each may raise.  \<open>x_rows\<close> and \<open>da_rows\<close> are \<^verbatim>\<open>x.shape[0]\<close> and
  \<^verbatim>\<open>da.shape[0]\<close>.  The permutation branch is taken when \<^verbatim>\<open>method.lower().find('_rnd') + 1\<close>
  is not zero.
\<close>

definition stat ::
  "('y \<Rightarrow> 'da \<Rightarrow> error + 'p) \<Rightarrow>
   ('da \<Rightarrow> 'd list option list \<Rightarrow> error + 'p) \<Rightarrow>
   ('x \<Rightarrow> 'y \<Rightarrow> string \<Rightarrow> error + ('f list \<times> 'y)) \<Rightarrow>
   (string \<Rightarrow> 'f \<Rightarrow> 'y \<Rightarrow> 'c \<Rightarrow> 'v \<Rightarrow> nat \<Rightarrow> 'd list) \<Rightarrow>
   ('y, 'c, 'v) classify \<Rightarrow> 'x \<Rightarrow> nat \<Rightarrow> 'da \<Rightarrow> nat \<Rightarrow> string \<Rightarrow> nat \<Rightarrow>
   error + ('p \<times> 'd list option list)" where
  "stat binostatinv perm2pval checkXY cvscores self x x_rows da da_rows method n_perm =
     (let xcol = (if x_rows = da_rows then ''sf'' else ''mf'')
      in if method = ''bino'' then
           (case binostatinv (y self) da of
              Inl e \<Rightarrow> Inl e
            | Inr pvalue \<Rightarrow> Inr (pvalue, []))
         else if find (lower method) ''_rnd'' + 1 \<noteq> 0 then
           (case checkXY x (y self) xcol of
              Inl e \<Rightarrow> Inl e
            | Inr (xs, y') \<Rightarrow>
                let daPerm = map (\<lambda>k. classifyPerm cvscores k y' (clf self) (cv self) method n_perm) xs
                in (case perm2pval da daPerm of
                      Inl e \<Rightarrow> Inl e
                    | Inr pvalue \<Rightarrow> Inr (pvalue, daPerm)))
         else Inl ValueError)"

lemma find_foo_rnd: "find (lower ''foo_rnd'') ''_rnd'' = 3"
  by code_simp

lemma find_upper_rnd: "find (lower ''LABEL_RND'') ''_rnd'' = 5"
  by code_simp

lemma find_from_absent:
  "\<not> (\<exists>pre post. s = pre @ sub @ post) \<Longrightarrow> find_from sub s i = - 1"
proof (induction s arbitrary: i)
  case Nil
  then show ?case by auto
next
  case (Cons c cs)
  have n1: "take (length sub) (c # cs) \<noteq> sub"
  proof
    assume e: "take (length sub) (c # cs) = sub"
    have "c # cs = [] @ sub @ drop (length sub) (c # cs)"
      using append_take_drop_id [of "length sub" "c # cs"] e by simp
    then show False using Cons.prems by blast
  qed
  have n2: "\<not> (\<exists>pre post. cs = pre @ sub @ post)"
  proof
    assume "\<exists>pre post. cs = pre @ sub @ post"
    then obtain pre post where "cs = pre @ sub @ post" by blast
    then have "c # cs = (c # pre) @ sub @ post" by simp
    then show False using Cons.prems by blast
  qed
  show ?case using n1 Cons.IH [OF n2] by simp
qed

text \<open>
  The documented behaviour holds for a method that is not \<^verbatim>\<open>bino\<close> and whose lower-case
  form does not contain \<^verbatim>\<open>_rnd\<close>: the call raises \<^verbatim>\<open>ValueError\<close>.
\<close>

lemma stat_rejects_without_rnd:
  assumes "method \<noteq> ''bino''" and "\<not> (\<exists>pre post. lower method = pre @ ''_rnd'' @ post)"
  shows "stat binostatinv perm2pval checkXY cvscores self x x_rows da da_rows method n_perm = Inl ValueError"
  using assms find_from_absent [of "lower method" "''_rnd''" 0]
  by (simp add: stat_def find_def Let_def)

text \<open>
  Claim C9 on the code.  The method \<^verbatim>\<open>foo_rnd\<close> is outside the enumerated set, yet it
  passes the test \<^verbatim>\<open>method.lower().find('_rnd') + 1\<close>: the \<^verbatim>\<open>ValueError\<close> of the last
  branch is not raised.  \<^verbatim>\<open>_classifyPerm\<close> returns \<^verbatim>\<open>None\<close> for every feature, the rows of
  \<^verbatim>\<open>None\<close> go to \<^verbatim>\<open>perm2pval\<close>, and what \<^verbatim>\<open>stat\<close> gives is what \<^verbatim>\<open>checkXY\<close> and
  \<^verbatim>\<open>perm2pval\<close> give on them.
\<close>

theorem stat_unknown_rnd_method:
  "stat binostatinv perm2pval checkXY cvscores self x x_rows da da_rows ''foo_rnd'' n_perm =
     (case checkXY x (y self) (if x_rows = da_rows then ''sf'' else ''mf'') of
        Inl e \<Rightarrow> Inl e
      | Inr (xs, y') \<Rightarrow>
          (case perm2pval da (map (\<lambda>k. None) xs) of
             Inl e \<Rightarrow> Inl e
           | Inr pvalue \<Rightarrow> Inr (pvalue, map (\<lambda>k. None) xs))) \<and>
   classifyPerm cvscores k y' c v ''foo_rnd'' n_perm = None \<and>
   stat (\<lambda>y da. Inr (0::nat)) (\<lambda>da rows. Inr (1::nat)) (\<lambda>x y xcol. Inr ([x], y)) cvscores
     self x x_rows da da_rows ''foo_rnd'' n_perm = Inr (1, [None])"
  by (simp add: stat_def classifyPerm_def find_foo_rnd Let_def split: sum.splits prod.splits)

section \<open>Granger causality: \<^verbatim>\<open>covgc_time\<close>\<close>

definition isinf :: "fl \<Rightarrow> bool" where
  "isinf v = (v = PInf \<or> v = NInf)"

definition isnan :: "fl \<Rightarrow> bool" where
  "isnan v = (v = NaN)"

text \<open>Complex doubles are added and subtracted by parts.\<close>

definition cadd :: "cfl \<Rightarrow> cfl \<Rightarrow> cfl" where
  "cadd a b = \<lparr>re = re a + re b, im = im a + im b\<rparr>"

definition csub :: "cfl \<Rightarrow> cfl \<Rightarrow> cfl" where
  "csub a b = \<lparr>re = re a - re b, im = im a - im b\<rparr>"

text \<open>
  \<^verbatim>\<open>np.abs\<close> of a complex double: infinite when a part is infinite, else NaN when a part
  is NaN, else the double nearest to the root of the sum of the squares, which may
  overflow to infinity.
\<close>

definition np_abs :: "cfl \<Rightarrow> fl" where
  "np_abs z =
     (if isinf (re z) \<or> isinf (im z) then PInf
      else case (re z, im z) of
        (Fin a, Fin b) \<Rightarrow> to_fl (sqrt (a\<^sup>2 + b\<^sup>2))
      | _ \<Rightarrow> NaN)"

text \<open>\<^verbatim>\<open>a[np.isinf(a)] = 0.\<close> and \<^verbatim>\<open>a[np.isnan(a)] = 0.\<close>.\<close>

definition zero_where :: "(fl \<Rightarrow> bool) \<Rightarrow> fl ndarray \<Rightarrow> fl ndarray" where
  "zero_where P a = a\<lparr>data := map (\<lambda>v. if P v then Fin 0 else v) (data a)\<rparr>"

text \<open>
  Reading \<^verbatim>\<open>x[s, t]\<close> with a Python integer \<open>t\<close>: negative indices count from the end,
  and an index outside the row raises \<^verbatim>\<open>IndexError\<close>.
\<close>

definition wrap_index :: "nat \<Rightarrow> int \<Rightarrow> error + nat" where
  "wrap_index n t =
     (if 0 \<le> t \<and> t < int n then Inr (nat t)
      else if - int n \<le> t \<and> t < 0 then Inr (nat (t + int n))
      else Inl IndexError)"

fun sequence_err :: "(error + 'a) list \<Rightarrow> error + 'a list" where
  "sequence_err [] = Inr []"
| "sequence_err (m # ms) =
     (case m of
        Inl e \<Rightarrow> Inl e
      | Inr v \<Rightarrow> (case sequence_err ms of Inl e \<Rightarrow> Inl e | Inr vs \<Rightarrow> Inr (v # vs)))"

definition bind_err :: "error + 'a \<Rightarrow> ('a \<Rightarrow> error + 'b) \<Rightarrow> error + 'b" where
  "bind_err m f = (case m of Inl e \<Rightarrow> Inl e | Inr v \<Rightarrow> f v)"

text \<open>
  The indices \<^verbatim>\<open>ind_t\<close>: for every lag \<open>l = 0 \<dots> lag\<close> the window \<open>t0 - dt - l, \<dots>, t0 - 1 - l\<close>.
  \<^verbatim>\<open>x[s, ind_t].reshape(lag + 1, dt)\<close> is the list of the \<open>lag + 1\<close> shifted windows of
  source \<open>s\<close>.
\<close>

definition ind_t :: "nat \<Rightarrow> nat \<Rightarrow> int \<Rightarrow> int list list" where
  "ind_t dt lag t0 = map (\<lambda>l. map (\<lambda>j. t0 - int dt + int j - int l) [0..<dt]) [0..<lag + 1]"

definition lagged :: "'a ndarray \<Rightarrow> nat \<Rightarrow> int list list \<Rightarrow> error + 'a list list" where
  "lagged x s ind =
     (if \<not> s < nrows x then Inl IndexError
      else sequence_err (map (\<lambda>row.
             sequence_err (map (\<lambda>t. bind_err (wrap_index (ncols x) t) (\<lambda>k. Inr (get2 x s k))) row)) ind))"

text \<open>
  The three causality values of one pair.  \<open>logdet\<close> stands for
  \<^verbatim>\<open>log(det(np.cov(m)))\<close> with the complex logarithm of \<^verbatim>\<open>numpy.lib.scimath\<close>, which may
  raise; a real logarithm is the complex double with imaginary part \<open>0\<close>.
\<close>

definition pair_gc ::
  "('a list list \<Rightarrow> error + cfl) \<Rightarrow> 'a list list \<Rightarrow> 'a list list \<Rightarrow> error + cfl list" where
  "pair_gc logdet x' y' =
     bind_err (logdet y') (\<lambda>det_yi1.
     bind_err (logdet (drop 1 y')) (\<lambda>det_yi.
     let h_ycy = csub det_yi1 det_yi in
     bind_err (logdet (y' @ drop 1 x')) (\<lambda>det_yxi1.
     bind_err (logdet (drop 1 y' @ drop 1 x')) (\<lambda>det_yxi.
     let h_ycx = csub det_yxi1 det_yxi in
     bind_err (logdet x') (\<lambda>det_xi1.
     bind_err (logdet (drop 1 x')) (\<lambda>det_xi.
     let h_xcx = csub det_xi1 det_xi in
     bind_err (logdet (x' @ drop 1 y')) (\<lambda>det_xyi1.
     let h_xcy = csub det_xyi1 det_yxi in
     bind_err (logdet (x' @ y')) (\<lambda>det_xyi1'.
     let h_xxcyy = csub det_xyi1' det_yxi in
     Inr [csub h_ycy h_ycx, csub h_xcx h_xcy, csub (cadd h_ycx h_xcy) h_xxcyy]))))))))"

fun gc_loop ::
  "('a list list \<Rightarrow> error + cfl) \<Rightarrow> 'a ndarray \<Rightarrow> int list list \<Rightarrow> (nat \<times> nat) list \<Rightarrow> error + cfl list" where
  "gc_loop logdet x ind [] = Inr []"
| "gc_loop logdet x ind (p # pairs) =
     bind_err (lagged x (fst p) ind) (\<lambda>x'.
     bind_err (lagged x (snd p) ind) (\<lambda>y'.
     bind_err (pair_gc logdet x' y') (\<lambda>row.
     bind_err (gc_loop logdet x ind pairs) (\<lambda>rows. Inr (row @ rows)))))"

text \<open>
  \<^verbatim>\<open>covgc_time\<close>, for a window width and a lag order that are natural numbers.  The data
  must be two-dimensional (\<^verbatim>\<open>n_so, n_ti = x.shape\<close>).
\<close>

definition covgc_time ::
  "('a list list \<Rightarrow> error + cfl) \<Rightarrow> 'a ndarray \<Rightarrow> nat \<Rightarrow> nat \<Rightarrow> int \<Rightarrow>
   error + (fl ndarray \<times> (nat \<times> nat) list)" where
  "covgc_time logdet x dt lag t0 =
     (if ndim x \<noteq> 2 then Inl ValueError
      else
        let n_so = shape x ! 0;
            ind = ind_t dt lag t0;
            pairs = c_stack (triu_indices n_so 1);
            n_pairs = length pairs
        in bind_err (gc_loop logdet x ind pairs) (\<lambda>gc.
             let gc_real = \<lparr>shape = [n_pairs, 3], data = map np_abs gc\<rparr>;
                 gc_real1 = zero_where isinf gc_real;
                 gc_real2 = zero_where isnan gc_real1
             in Inr (gc_real2, pairs)))"

text \<open>
  The library functions behind \<open>logdet\<close>, on finite data and in exact arithmetic that is
  rounded once.  \<^verbatim>\<open>np.cov(m)\<close> of \<open>k\<close> rows of \<open>N\<close> observations is the \<open>k \<times> k\<close> matrix of the
  sample covariances, with divisor \<open>N - 1\<close>; for \<open>k = 1\<close> it is a zero-dimensional array,
  which \<^verbatim>\<open>det\<close> refuses with \<^verbatim>\<open>LinAlgError\<close>; for \<open>k = 0\<close> it is the empty matrix, of
  determinant \<open>1\<close>; for \<open>N \<le> 1\<close> every entry is NaN.  \<^verbatim>\<open>numpy.lib.scimath.log\<close> is the real
  logarithm of a double that is not negative (\<open>- inf\<close> at \<open>0\<close>) and the complex logarithm
  \<open>ln \<bar>d\<bar> + \<pi> i\<close> of a negative one.
\<close>

definition np_cov :: "real list list \<Rightarrow> real list list" where
  "np_cov m =
     map (\<lambda>r. map (\<lambda>q. sum_list (map2 (\<lambda>a b. (a - mean r) * (b - mean q)) r q) /
                         (of_nat (length r) - 1)) m) m"

function det :: "real list list \<Rightarrow> real" where
  "det [] = 1"
| "det (r # rs) =
     sum_list (map (\<lambda>j. (- 1) ^ j * (r ! j) * det (map (\<lambda>row. take j row @ drop (Suc j) row) rs))
                 [0..<length r])"
  by pat_completeness auto
termination
  by (relation "measure length") auto

definition det_cov :: "real list list \<Rightarrow> error + fl" where
  "det_cov m =
     (if length m = 1 then Inl LinAlgError
      else if m = [] then Inr (Fin 1)
      else if length (hd m) \<le> 1 then Inr NaN
      else Inr (to_fl (det (np_cov m))))"

definition scimath_log :: "fl \<Rightarrow> cfl" where
  "scimath_log d =
     (case d of
        Fin v \<Rightarrow>
          if 0 < v then \<lparr>re = to_fl (ln v), im = Fin 0\<rparr>
          else if v = 0 then \<lparr>re = NInf, im = Fin 0\<rparr>
          else \<lparr>re = to_fl (ln (- v)), im = to_fl pi\<rparr>
      | PInf \<Rightarrow> \<lparr>re = PInf, im = Fin 0\<rparr>
      | NInf \<Rightarrow> \<lparr>re = PInf, im = to_fl pi\<rparr>
      | NaN \<Rightarrow> \<lparr>re = NaN, im = Fin 0\<rparr>)"

definition logdet_cov :: "real list list \<Rightarrow> error + cfl" where
  "logdet_cov m = bind_err (det_cov m) (\<lambda>d. Inr (scimath_log d))"

text \<open>
  The specification of the result.  The embedding of source \<open>s\<close>: for every lag
  \<open>l = 0 \<dots> lag\<close> the window of \<open>dt\<close> samples that ends before \<open>t0 - l\<close>, a negative time
  counting from the end of the recording.  The magnitude of a causality value, with \<open>0\<close>
  in the place of a magnitude that is infinite or NaN.
\<close>

definition embedding :: "'a ndarray \<Rightarrow> nat \<Rightarrow> nat \<Rightarrow> nat \<Rightarrow> int \<Rightarrow> 'a list list" where
  "embedding x s dt lag t0 =
     map (\<lambda>l. map (\<lambda>j. let t = t0 - int dt + int j - int l
                       in get2 x s (nat (if t < 0 then t + int (ncols x) else t))) [0..<dt])
       [0..<lag + 1]"

definition magnitude_or_zero :: "cfl \<Rightarrow> fl" where
  "magnitude_or_zero z =
     (case (re z, im z) of
        (Fin a, Fin b) \<Rightarrow>
          if rnd (sqrt (a\<^sup>2 + b\<^sup>2)) < 2 ^ 1024 then Fin (rnd (sqrt (a\<^sup>2 + b\<^sup>2))) else Fin 0
      | _ \<Rightarrow> Fin 0)"

definition finite_nonneg :: "fl \<Rightarrow> bool" where
  "finite_nonneg v = (case v of Fin r \<Rightarrow> 0 \<le> r | _ \<Rightarrow> False)"

lemma round_even_nonneg: "0 \<le> r \<Longrightarrow> 0 \<le> round_even r"
  by (auto simp: round_even_def Let_def)

lemma rnd_nonneg: "0 \<le> r \<Longrightarrow> 0 \<le> rnd r"
  by (simp add: rnd_def round_even_nonneg)

lemma np_abs_magnitude:
  "(\<lambda>v. if isnan v then Fin 0 else v) ((\<lambda>v. if isinf v then Fin 0 else v) (np_abs z)) =
   magnitude_or_zero z"
proof (cases "re z"; cases "im z")
  fix a b assume h: "re z = Fin a" "im z = Fin b"
  have "0 \<le> rnd (sqrt (a\<^sup>2 + b\<^sup>2))" by (rule rnd_nonneg) simp
  then show ?thesis
    using h by (auto simp: np_abs_def magnitude_or_zero_def isinf_def isnan_def to_fl_def Let_def)
qed (auto simp: np_abs_def magnitude_or_zero_def isinf_def isnan_def)

lemma magnitude_finite_nonneg: "finite_nonneg (magnitude_or_zero z)"
proof (cases "re z"; cases "im z")
  fix a b assume h: "re z = Fin a" "im z = Fin b"
  have "0 \<le> rnd (sqrt (a\<^sup>2 + b\<^sup>2))" by (rule rnd_nonneg) simp
  then show ?thesis
    using h by (simp add: magnitude_or_zero_def finite_nonneg_def)
qed (auto simp: magnitude_or_zero_def finite_nonneg_def)

lemma sequence_err_map_Inr:
  assumes "sequence_err (map f xs) = Inr ys" and "\<And>x v. x \<in> set xs \<Longrightarrow> f x = Inr v \<Longrightarrow> v = g x"
  shows "ys = map g xs"
  using assms
proof (induction xs arbitrary: ys)
  case Nil
  then show ?case by simp
next
  case (Cons x xs)
  from Cons.prems(1) obtain v vs where v: "f x = Inr v" and vs: "sequence_err (map f xs) = Inr vs"
    and ys: "ys = v # vs"
    by (auto split: sum.splits)
  have "v = g x" using Cons.prems(2) [of x v] v by simp
  moreover have "vs = map g xs" using Cons.IH [OF vs] Cons.prems(2) by simp
  ultimately show ?case using ys by simp
qed

lemma sequence_err_map_success:
  assumes "\<And>x. x \<in> set xs \<Longrightarrow> \<exists>v. f x = Inr v"
  shows "\<exists>ys. sequence_err (map f xs) = Inr ys"
  using assms
proof (induction xs)
  case Nil
  then show ?case by simp
next
  case (Cons x xs)
  obtain v where v: "f x = Inr v" using Cons.prems [of x] by auto
  obtain vs where vs: "sequence_err (map f xs) = Inr vs" using Cons.IH Cons.prems by auto
  show ?case using v vs by simp
qed

lemma wrap_index_Inr:
  "wrap_index n t = Inr k \<Longrightarrow> k = nat (if t < 0 then t + int n else t)"
  by (auto simp: wrap_index_def split: if_splits)

lemma lagged_Inr:
  assumes "lagged x s (ind_t dt lag t0) = Inr rows"
  shows "rows = embedding x s dt lag t0"
proof -
  let ?g = "\<lambda>t. get2 x s (nat (if t < 0 then t + int (ncols x) else t))"
  let ?f = "\<lambda>t. bind_err (wrap_index (ncols x) t) (\<lambda>k. Inr (get2 x s k))"
  from assms have s: "sequence_err (map (\<lambda>row. sequence_err (map ?f row)) (ind_t dt lag t0)) = Inr rows"
    by (simp add: lagged_def split: if_splits)
  have "rows = map (map ?g) (ind_t dt lag t0)"
  proof (rule sequence_err_map_Inr [OF s])
    fix row v assume "sequence_err (map ?f row) = Inr v"
    then show "v = map ?g row"
    proof (rule sequence_err_map_Inr)
      fix t w assume "?f t = Inr w"
      then show "w = ?g t"
        by (auto simp: bind_err_def dest: wrap_index_Inr split: sum.splits)
    qed
  qed
  then show ?thesis by (simp add: embedding_def ind_t_def comp_def Let_def)
qed

lemma lagged_success:
  assumes "s < nrows x" and "dt = 0 \<or> (- int (ncols x) \<le> t0 - int dt - int lag \<and> t0 \<le> int (ncols x))"
  shows "\<exists>rows. lagged x s (ind_t dt lag t0) = Inr rows"
proof -
  let ?f = "\<lambda>t. bind_err (wrap_index (ncols x) t) (\<lambda>k. Inr (get2 x s k))"
  have "\<exists>ys. sequence_err (map (\<lambda>row. sequence_err (map ?f row)) (ind_t dt lag t0)) = Inr ys"
  proof (rule sequence_err_map_success)
    fix row assume r: "row \<in> set (ind_t dt lag t0)"
    show "\<exists>v. sequence_err (map ?f row) = Inr v"
    proof (rule sequence_err_map_success)
      fix t assume t: "t \<in> set row"
      from r have "row \<in> (\<lambda>l. map (\<lambda>j. t0 - int dt + int j - int l) [0..<dt]) ` set [0..<lag + 1]"
        unfolding ind_t_def set_map .
      then obtain l where l': "l \<in> set [0..<lag + 1]"
        and l2: "row = map (\<lambda>j. t0 - int dt + int j - int l) [0..<dt]"
        by (rule imageE)
      have l: "l < lag + 1" "row = map (\<lambda>j. t0 - int dt + int j - int l) [0..<dt]"
        using l' l2 by auto
      from t l(2) obtain j where j: "j < dt" "t = t0 - int dt + int j - int l"
        by auto
      have "l \<le> lag" using l(1) by simp
      note this j
      then have "- int (ncols x) \<le> t \<and> t < int (ncols x)" using assms(2) by auto
      then show "\<exists>v. ?f t = Inr v" by (auto simp: bind_err_def wrap_index_def)
    qed
  qed
  then show ?thesis using assms(1) by (simp add: lagged_def)
qed

lemma length_embedding: "length (embedding x s dt lag t0) = lag + 1"
  by (simp add: embedding_def)


lemma pair_gc_Inr:
  assumes "pair_gc logdet X Y = Inr row"
  shows "\<exists>d_y1 d_y d_yx1 d_yx d_x1 d_x d_xy1 d_xy.
           logdet Y = Inr d_y1 \<and> logdet (tl Y) = Inr d_y \<and>
           logdet (Y @ tl X) = Inr d_yx1 \<and> logdet (tl Y @ tl X) = Inr d_yx \<and>
           logdet X = Inr d_x1 \<and> logdet (tl X) = Inr d_x \<and>
           logdet (X @ tl Y) = Inr d_xy1 \<and> logdet (X @ Y) = Inr d_xy \<and>
           row = [csub (csub d_y1 d_y) (csub d_yx1 d_yx),
                  csub (csub d_x1 d_x) (csub d_xy1 d_yx),
                  csub (cadd (csub d_yx1 d_yx) (csub d_xy1 d_yx)) (csub d_xy d_yx)]"
  using assms
  by (auto simp: pair_gc_def bind_err_def Let_def drop_Suc split: sum.splits)

lemma pair_gc_success:
  assumes "\<forall>m. 2 \<le> length m \<longrightarrow> (\<exists>z. logdet m = Inr z)" and "3 \<le> length X" and "3 \<le> length Y"
  shows "\<exists>row. pair_gc logdet X Y = Inr row"
proof -
  have l: "2 \<le> length Y" "2 \<le> length (tl Y)" "2 \<le> length (Y @ tl X)" "2 \<le> length (tl Y @ tl X)"
    "2 \<le> length X" "2 \<le> length (tl X)" "2 \<le> length (X @ tl Y)" "2 \<le> length (X @ Y)"
    using assms(2,3) by simp_all
  obtain d1 where d1: "logdet Y = Inr d1" using assms(1) l(1) by blast
  obtain d2 where d2: "logdet (tl Y) = Inr d2" using assms(1) l(2) by blast
  obtain d3 where d3: "logdet (Y @ tl X) = Inr d3" using assms(1) l(3) by blast
  obtain d4 where d4: "logdet (tl Y @ tl X) = Inr d4" using assms(1) l(4) by blast
  obtain d5 where d5: "logdet X = Inr d5" using assms(1) l(5) by blast
  obtain d6 where d6: "logdet (tl X) = Inr d6" using assms(1) l(6) by blast
  obtain d7 where d7: "logdet (X @ tl Y) = Inr d7" using assms(1) l(7) by blast
  obtain d8 where d8: "logdet (X @ Y) = Inr d8" using assms(1) l(8) by blast
  show ?thesis
    by (simp add: pair_gc_def bind_err_def Let_def drop_Suc d1 d2 d3 d4 d5 d6 d7 d8)
qed

lemma gc_loop_Inr:
  assumes "gc_loop logdet x ind ps = Inr cs"
  shows "length cs = 3 * length ps \<and>
         (\<forall>k < length ps. \<exists>X Y. lagged x (fst (ps ! k)) ind = Inr X \<and>
              lagged x (snd (ps ! k)) ind = Inr Y \<and>
              pair_gc logdet X Y = Inr (take 3 (drop (3 * k) cs)))"
  using assms
proof (induction ps arbitrary: cs)
  case Nil
  then show ?case by simp
next
  case (Cons p ps)
  from Cons.prems obtain X Y row rows where
    X: "lagged x (fst p) ind = Inr X" and Y: "lagged x (snd p) ind = Inr Y" and
    row: "pair_gc logdet X Y = Inr row" and rows: "gc_loop logdet x ind ps = Inr rows" and
    cs: "cs = row @ rows"
    by (auto simp: bind_err_def split: sum.splits)
  have lr: "length row = 3" using pair_gc_Inr [OF row] by auto
  from Cons.IH [OF rows] have
    len: "length rows = 3 * length ps" and
    ih: "\<forall>k < length ps. \<exists>X Y. lagged x (fst (ps ! k)) ind = Inr X \<and>
              lagged x (snd (ps ! k)) ind = Inr Y \<and>
              pair_gc logdet X Y = Inr (take 3 (drop (3 * k) rows))"
    by simp_all
  have 1: "length cs = 3 * length (p # ps)" using cs lr len by simp
  have 2: "\<exists>X Y. lagged x (fst ((p # ps) ! k)) ind = Inr X \<and>
              lagged x (snd ((p # ps) ! k)) ind = Inr Y \<and>
              pair_gc logdet X Y = Inr (take 3 (drop (3 * k) cs))" if "k < length (p # ps)" for k
  proof (cases k)
    case 0
    then show ?thesis using X Y row cs lr by simp
  next
    case (Suc k')
    then have "k' < length ps" using that by simp
    moreover have "drop (3 * k) cs = drop (3 * k') rows" using Suc cs lr by simp
    ultimately show ?thesis using ih Suc by simp
  qed
  show ?case using 1 2 by blast
qed

lemma gc_loop_success:
  assumes "\<forall>p \<in> set ps. \<exists>X Y row. lagged x (fst p) ind = Inr X \<and> lagged x (snd p) ind = Inr Y \<and>
             pair_gc logdet X Y = Inr row"
  shows "\<exists>cs. gc_loop logdet x ind ps = Inr cs"
  using assms
proof (induction ps)
  case Nil
  then show ?case by simp
next
  case (Cons p ps)
  from Cons.prems obtain X Y row where
    "lagged x (fst p) ind = Inr X" "lagged x (snd p) ind = Inr Y" "pair_gc logdet X Y = Inr row"
    by auto
  moreover obtain rows where "gc_loop logdet x ind ps = Inr rows" using Cons.IH Cons.prems by auto
  ultimately show ?case by (simp add: bind_err_def)
qed

lemma gc_entry:
  assumes "gc = zero_where isnan (zero_where isinf \<lparr>shape = [np, 3], data = map np_abs cs\<rparr>)"
    and "length cs = 3 * np" and "k < np" and "c < 3"
  shows "get2 gc k c = magnitude_or_zero (cs ! (3 * k + c))"
proof -
  have i: "3 * k + c < length cs" using assms(2,3,4) by simp
  have "get2 gc k c = (\<lambda>v. if isnan v then Fin 0 else v) ((\<lambda>v. if isinf v then Fin 0 else v)
          (np_abs (cs ! (3 * k + c))))"
    using i by (simp add: assms(1) zero_where_def get2_def ncols_def mult.commute)
  then show ?thesis by (simp only: np_abs_magnitude)
qed

lemma covgc_time_Inr:
  assumes "covgc_time logdet x dt lag t0 = Inr (gc, pairs)"
  shows "ndim x = 2" and "pairs = triu_pairs (nrows x) 1"
    and "\<exists>cs. gc_loop logdet x (ind_t dt lag t0) pairs = Inr cs \<and>
          gc = zero_where isnan (zero_where isinf \<lparr>shape = [length pairs, 3], data = map np_abs cs\<rparr>)"
  using assms
  by (auto simp: covgc_time_def Let_def bind_err_def triu_indices_def c_stack_unzip nrows_def
      split: if_splits sum.splits)

lemma covgc_time_entries:
  assumes "covgc_time logdet x dt lag t0 = Inr (gc, pairs)" and "k < length pairs"
  shows "\<exists>d_y1 d_y d_yx1 d_yx d_x1 d_x d_xy1 d_xy.
           logdet (embedding x (snd (pairs ! k)) dt lag t0) = Inr d_y1 \<and>
           logdet (tl (embedding x (snd (pairs ! k)) dt lag t0)) = Inr d_y \<and>
           logdet (embedding x (snd (pairs ! k)) dt lag t0 @
                   tl (embedding x (fst (pairs ! k)) dt lag t0)) = Inr d_yx1 \<and>
           logdet (tl (embedding x (snd (pairs ! k)) dt lag t0) @
                   tl (embedding x (fst (pairs ! k)) dt lag t0)) = Inr d_yx \<and>
           logdet (embedding x (fst (pairs ! k)) dt lag t0) = Inr d_x1 \<and>
           logdet (tl (embedding x (fst (pairs ! k)) dt lag t0)) = Inr d_x \<and>
           logdet (embedding x (fst (pairs ! k)) dt lag t0 @
                   tl (embedding x (snd (pairs ! k)) dt lag t0)) = Inr d_xy1 \<and>
           logdet (embedding x (fst (pairs ! k)) dt lag t0 @
                   embedding x (snd (pairs ! k)) dt lag t0) = Inr d_xy \<and>
           get2 gc k 0 = magnitude_or_zero (csub (csub d_y1 d_y) (csub d_yx1 d_yx)) \<and>
           get2 gc k 1 = magnitude_or_zero (csub (csub d_x1 d_x) (csub d_xy1 d_yx)) \<and>
           get2 gc k 2 = magnitude_or_zero
             (csub (cadd (csub d_yx1 d_yx) (csub d_xy1 d_yx)) (csub d_xy d_yx))"
proof -
  from covgc_time_Inr(3) [OF assms(1)] obtain cs where
    l: "gc_loop logdet x (ind_t dt lag t0) pairs = Inr cs" and
    g: "gc = zero_where isnan (zero_where isinf \<lparr>shape = [length pairs, 3], data = map np_abs cs\<rparr>)"
    by blast
  note gl = gc_loop_Inr [OF l]
  have len: "length cs = 3 * length pairs" using gl by (rule conjunct1)
  from gl [THEN conjunct2, rule_format, OF assms(2)] obtain X Y where
    X: "lagged x (fst (pairs ! k)) (ind_t dt lag t0) = Inr X" and
    Y: "lagged x (snd (pairs ! k)) (ind_t dt lag t0) = Inr Y" and
    row: "pair_gc logdet X Y = Inr (take 3 (drop (3 * k) cs))"
    by (elim exE conjE)
  have Xe: "X = embedding x (fst (pairs ! k)) dt lag t0" using X by (rule lagged_Inr)
  have Ye: "Y = embedding x (snd (pairs ! k)) dt lag t0" using Y by (rule lagged_Inr)
  from pair_gc_Inr [OF row] obtain d_y1 d_y d_yx1 d_yx d_x1 d_x d_xy1 d_xy where
    d: "logdet Y = Inr d_y1" "logdet (tl Y) = Inr d_y"
       "logdet (Y @ tl X) = Inr d_yx1" "logdet (tl Y @ tl X) = Inr d_yx"
       "logdet X = Inr d_x1" "logdet (tl X) = Inr d_x"
       "logdet (X @ tl Y) = Inr d_xy1" "logdet (X @ Y) = Inr d_xy" and
    r: "take 3 (drop (3 * k) cs) =
          [csub (csub d_y1 d_y) (csub d_yx1 d_yx),
           csub (csub d_x1 d_x) (csub d_xy1 d_yx),
           csub (cadd (csub d_yx1 d_yx) (csub d_xy1 d_yx)) (csub d_xy d_yx)]"
    by (elim exE conjE)
  have nth: "cs ! (3 * k + c) = take 3 (drop (3 * k) cs) ! c" if "c < 3" for c
  proof -
    have "3 * k + c \<le> length cs" using that len assms(2) by simp
    then show ?thesis using that by simp
  qed
  have t0: "take 3 (drop (3 * k) cs) ! 0 = csub (csub d_y1 d_y) (csub d_yx1 d_yx)"
    and t1: "take 3 (drop (3 * k) cs) ! 1 = csub (csub d_x1 d_x) (csub d_xy1 d_yx)"
    and t2: "take 3 (drop (3 * k) cs) ! 2 =
       csub (cadd (csub d_yx1 d_yx) (csub d_xy1 d_yx)) (csub d_xy d_yx)"
    unfolding r by simp_all
  have c0: "cs ! (3 * k + 0) = csub (csub d_y1 d_y) (csub d_yx1 d_yx)"
  proof -
    have "cs ! (3 * k + 0) = take 3 (drop (3 * k) cs) ! 0" by (rule nth) simp
    then show ?thesis by (simp only: t0)
  qed
  have c1: "cs ! (3 * k + 1) = csub (csub d_x1 d_x) (csub d_xy1 d_yx)"
  proof -
    have "cs ! (3 * k + 1) = take 3 (drop (3 * k) cs) ! 1" by (rule nth) simp
    then show ?thesis by (simp only: t1)
  qed
  have c2: "cs ! (3 * k + 2) = csub (cadd (csub d_yx1 d_yx) (csub d_xy1 d_yx)) (csub d_xy d_yx)"
  proof -
    have "cs ! (3 * k + 2) = take 3 (drop (3 * k) cs) ! 2" by (rule nth) simp
    then show ?thesis by (simp only: t2)
  qed
  have e0: "get2 gc k 0 = magnitude_or_zero (csub (csub d_y1 d_y) (csub d_yx1 d_yx))"
    using gc_entry [OF g len assms(2), of 0] unfolding c0 by simp
  have e1: "get2 gc k 1 = magnitude_or_zero (csub (csub d_x1 d_x) (csub d_xy1 d_yx))"
    using gc_entry [OF g len assms(2), of 1] unfolding c1 by simp
  have e2: "get2 gc k 2 = magnitude_or_zero
             (csub (cadd (csub d_yx1 d_yx) (csub d_xy1 d_yx)) (csub d_xy d_yx))"
    using gc_entry [OF g len assms(2), of 2] unfolding c2 by simp
  note d' = d [unfolded Xe Ye]
  note all = conjI [OF d'(1) conjI [OF d'(2) conjI [OF d'(3) conjI [OF d'(4) conjI [OF d'(5)
    conjI [OF d'(6) conjI [OF d'(7) conjI [OF d'(8) conjI [OF e0 conjI [OF e1 e2]]]]]]]]]]
  show ?thesis
    apply (intro exI)
    apply (rule all)
    done
qed

lemma covgc_time_shape:
  assumes "covgc_time logdet x dt lag t0 = Inr (gc, pairs)"
  shows "shape gc = [length pairs, 3]" and "wf_array gc" and "\<forall>v \<in> set (data gc). finite_nonneg v"
proof -
  from covgc_time_Inr(3) [OF assms(1)] obtain cs where
    l: "gc_loop logdet x (ind_t dt lag t0) pairs = Inr cs" and
    g: "gc = zero_where isnan (zero_where isinf \<lparr>shape = [length pairs, 3], data = map np_abs cs\<rparr>)"
    by blast
  have len: "length cs = 3 * length pairs" using gc_loop_Inr [OF l] by simp
  show "shape gc = [length pairs, 3]" by (simp add: g zero_where_def)
  show "wf_array gc" using len by (simp add: g zero_where_def wf_array_def)
  have d: "data gc = map magnitude_or_zero cs"
    by (simp add: g zero_where_def comp_def np_abs_magnitude)
  show "\<forall>v \<in> set (data gc). finite_nonneg v"
    unfolding d by (auto simp: magnitude_finite_nonneg)
qed

lemma covgc_time_success:
  assumes "wf_array x" and "shape x = [n, T]" and "2 \<le> lag"
    and "dt = 0 \<or> (- int T \<le> t0 - int dt - int lag \<and> t0 \<le> int T)"
    and "\<forall>m. 2 \<le> length m \<longrightarrow> (\<exists>z. logdet m = Inr z)"
  shows "\<exists>gc pairs. covgc_time logdet x dt lag t0 = Inr (gc, pairs)"
proof -
  have nr: "nrows x = n" and nc: "ncols x = T" and nd: "ndim x = 2"
    using assms(2) by (simp_all add: nrows_def ncols_def ndim_def)
  have "\<exists>X Y row. lagged x (fst p) (ind_t dt lag t0) = Inr X \<and>
          lagged x (snd p) (ind_t dt lag t0) = Inr Y \<and> pair_gc logdet X Y = Inr row"
    if "p \<in> set (triu_pairs n 1)" for p
  proof -
    have b: "fst p < nrows x" "snd p < nrows x" using triu_pairs_bounds [OF that] nr by simp_all
    have r: "dt = 0 \<or> (- int (ncols x) \<le> t0 - int dt - int lag \<and> t0 \<le> int (ncols x))"
      using assms(4) nc by simp
    obtain X where X: "lagged x (fst p) (ind_t dt lag t0) = Inr X"
      using lagged_success [OF b(1) r] by blast
    obtain Y where Y: "lagged x (snd p) (ind_t dt lag t0) = Inr Y"
      using lagged_success [OF b(2) r] by blast
    have "length X = lag + 1" "length Y = lag + 1"
      using lagged_Inr [OF X] lagged_Inr [OF Y] by (simp_all add: length_embedding)
    then have "3 \<le> length X" "3 \<le> length Y" using assms(3) by simp_all
    from pair_gc_success [OF assms(5) this] obtain row where "pair_gc logdet X Y = Inr row" by blast
    then show ?thesis using X Y by blast
  qed
  then have "\<forall>p \<in> set (triu_pairs n 1). \<exists>X Y row. lagged x (fst p) (ind_t dt lag t0) = Inr X \<and>
          lagged x (snd p) (ind_t dt lag t0) = Inr Y \<and> pair_gc logdet X Y = Inr row"
    by (rule ballI)
  then have "\<exists>cs. gc_loop logdet x (ind_t dt lag t0) (triu_pairs n 1) = Inr cs"
    by (rule gc_loop_success)
  then obtain cs where cs: "gc_loop logdet x (ind_t dt lag t0) (triu_pairs n 1) = Inr cs" ..
  have ps: "c_stack (triu_indices (shape x ! 0) 1) = triu_pairs n 1"
    by (simp add: triu_indices_def c_stack_unzip assms(2))
  show ?thesis
    unfolding covgc_time_def Let_def ps by (simp add: nd cs bind_err_def)
qed


lemma logdet_cov_success: "2 \<le> length m \<Longrightarrow> \<exists>z. logdet_cov m = Inr z"
  by (auto simp: logdet_cov_def det_cov_def bind_err_def)

text \<open>
  Claim C5.  Whenever \<^verbatim>\<open>covgc_time\<close> returns, \<^verbatim>\<open>pairs\<close> lists the \<open>n (n - 1) / 2\<close> pairs
  \<open>s\<^sub>0 < s\<^sub>1\<close> of sources in row-major order, \<^verbatim>\<open>gc\<close> has one row of three entries per pair,
  and every entry is a finite double that is not negative: with \<open>X\<close> and \<open>Y\<close> the
  embeddings of \<open>s\<^sub>0\<close> and \<open>s\<^sub>1\<close>, the entries of the row are the magnitudes of
  \<open>h\<^sub>y\<^sub>c\<^sub>y - h\<^sub>y\<^sub>c\<^sub>x\<close>, of \<open>h\<^sub>x\<^sub>c\<^sub>x - h\<^sub>x\<^sub>c\<^sub>y\<close> and of \<open>h\<^sub>y\<^sub>c\<^sub>x + h\<^sub>x\<^sub>c\<^sub>y - h\<^sub>x\<^sub>x\<^sub>c\<^sub>y\<^sub>y\<close>, each a difference of two
  log-determinants, and a magnitude that is infinite or NaN is replaced by \<open>0\<close>.  The call
  returns for two-dimensional data when the lag order is at least \<open>2\<close>, every window lies
  in the recording, and the log-determinant is defined on every matrix of two rows or
  more.
\<close>

theorem covgc_time_finite_nonneg:
  "(covgc_time logdet x dt lag t0 = Inr (gc, pairs) \<longrightarrow>
      pairs = triu_pairs (nrows x) 1 \<and> length pairs = nrows x * (nrows x - 1) div 2 \<and>
      shape gc = [length pairs, 3] \<and> wf_array gc \<and>
      (\<forall>v \<in> set (data gc). finite_nonneg v) \<and>
      (\<forall>k < length pairs.
         \<exists>d_y1 d_y d_yx1 d_yx d_x1 d_x d_xy1 d_xy.
           logdet (embedding x (snd (pairs ! k)) dt lag t0) = Inr d_y1 \<and>
           logdet (tl (embedding x (snd (pairs ! k)) dt lag t0)) = Inr d_y \<and>
           logdet (embedding x (snd (pairs ! k)) dt lag t0 @
                   tl (embedding x (fst (pairs ! k)) dt lag t0)) = Inr d_yx1 \<and>
           logdet (tl (embedding x (snd (pairs ! k)) dt lag t0) @
                   tl (embedding x (fst (pairs ! k)) dt lag t0)) = Inr d_yx \<and>
           logdet (embedding x (fst (pairs ! k)) dt lag t0) = Inr d_x1 \<and>
           logdet (tl (embedding x (fst (pairs ! k)) dt lag t0)) = Inr d_x \<and>
           logdet (embedding x (fst (pairs ! k)) dt lag t0 @
                   tl (embedding x (snd (pairs ! k)) dt lag t0)) = Inr d_xy1 \<and>
           logdet (embedding x (fst (pairs ! k)) dt lag t0 @
                   embedding x (snd (pairs ! k)) dt lag t0) = Inr d_xy \<and>
           get2 gc k 0 = magnitude_or_zero (csub (csub d_y1 d_y) (csub d_yx1 d_yx)) \<and>
           get2 gc k 1 = magnitude_or_zero (csub (csub d_x1 d_x) (csub d_xy1 d_yx)) \<and>
           get2 gc k 2 = magnitude_or_zero
             (csub (cadd (csub d_yx1 d_yx) (csub d_xy1 d_yx)) (csub d_xy d_yx)))) \<and>
   (wf_array x \<and> shape x = [n, T] \<and> 2 \<le> lag \<and>
    (dt = 0 \<or> (- int T \<le> t0 - int dt - int lag \<and> t0 \<le> int T)) \<and>
    (\<forall>m. 2 \<le> length m \<longrightarrow> (\<exists>z. logdet m = Inr z)) \<longrightarrow>
      (\<exists>gc' pairs'. covgc_time logdet x dt lag t0 = Inr (gc', pairs')))"
proof (intro conjI impI allI)
  assume r: "covgc_time logdet x dt lag t0 = Inr (gc, pairs)"
  show p: "pairs = triu_pairs (nrows x) 1" using r by (rule covgc_time_Inr(2))
  show "length pairs = nrows x * (nrows x - 1) div 2" unfolding p by (rule length_triu)
  show "shape gc = [length pairs, 3]" using r by (rule covgc_time_shape(1))
  show "wf_array gc" using r by (rule covgc_time_shape(2))
  show "\<forall>v \<in> set (data gc). finite_nonneg v" using r by (rule covgc_time_shape(3))
  fix k assume "k < length pairs"
  with r show "\<exists>d_y1 d_y d_yx1 d_yx d_x1 d_x d_xy1 d_xy.
           logdet (embedding x (snd (pairs ! k)) dt lag t0) = Inr d_y1 \<and>
           logdet (tl (embedding x (snd (pairs ! k)) dt lag t0)) = Inr d_y \<and>
           logdet (embedding x (snd (pairs ! k)) dt lag t0 @
                   tl (embedding x (fst (pairs ! k)) dt lag t0)) = Inr d_yx1 \<and>
           logdet (tl (embedding x (snd (pairs ! k)) dt lag t0) @
                   tl (embedding x (fst (pairs ! k)) dt lag t0)) = Inr d_yx \<and>
           logdet (embedding x (fst (pairs ! k)) dt lag t0) = Inr d_x1 \<and>
           logdet (tl (embedding x (fst (pairs ! k)) dt lag t0)) = Inr d_x \<and>
           logdet (embedding x (fst (pairs ! k)) dt lag t0 @
                   tl (embedding x (snd (pairs ! k)) dt lag t0)) = Inr d_xy1 \<and>
           logdet (embedding x (fst (pairs ! k)) dt lag t0 @
                   embedding x (snd (pairs ! k)) dt lag t0) = Inr d_xy \<and>
           get2 gc k 0 = magnitude_or_zero (csub (csub d_y1 d_y) (csub d_yx1 d_yx)) \<and>
           get2 gc k 1 = magnitude_or_zero (csub (csub d_x1 d_x) (csub d_xy1 d_yx)) \<and>
           get2 gc k 2 = magnitude_or_zero
             (csub (cadd (csub d_yx1 d_yx) (csub d_xy1 d_yx)) (csub d_xy d_yx))"
    by (rule covgc_time_entries)
next
  assume h: "wf_array x \<and> shape x = [n, T] \<and> 2 \<le> lag \<and>
    (dt = 0 \<or> (- int T \<le> t0 - int dt - int lag \<and> t0 \<le> int T)) \<and>
    (\<forall>m. 2 \<le> length m \<longrightarrow> (\<exists>z. logdet m = Inr z))"
  show "\<exists>gc' pairs'. covgc_time logdet x dt lag t0 = Inr (gc', pairs')"
    by (rule covgc_time_success [of x n T lag dt t0 logdet]) (use h in simp_all)
qed

theorem covgc_time_finite_nonneg_witness:
  "\<exists>gc pairs.
     covgc_time logdet_cov
       \<lparr>shape = [2, 10], data = [1, 2, 4, 3, 5, 9, 2, 6, 5, 3, 2, 0, 1, 5, 3, 4, 8, 1, 7, 2]\<rparr> 7 2 9 =
       Inr (gc, pairs) \<and>
     pairs = [(0, 1)] \<and> shape gc = [1, 3] \<and> length (data gc) = 3 \<and>
     list_all finite_nonneg (data gc) \<and>
     (\<exists>z. get2 gc 0 0 = magnitude_or_zero z)"
proof -
  define x :: "real ndarray" where
    "x = \<lparr>shape = [2, 10], data = [1, 2, 4, 3, 5, 9, 2, 6, 5, 3, 2, 0, 1, 5, 3, 4, 8, 1, 7, 2]\<rparr>"
  have h: "wf_array x \<and> shape x = [2, 10] \<and> (2 :: nat) \<le> 2 \<and>
    ((7 :: nat) = 0 \<or> (- int 10 \<le> 9 - int 7 - int 2 \<and> 9 \<le> int 10)) \<and>
    (\<forall>m. 2 \<le> length m \<longrightarrow> (\<exists>z. logdet_cov m = Inr z))"
    by (simp add: x_def wf_array_def logdet_cov_success)
  from covgc_time_finite_nonneg [where logdet = logdet_cov and x = x and dt = 7 and lag = 2
      and ?t0.0 = 9 and n = 2 and T = 10, THEN conjunct2, rule_format, OF h]
  obtain gc pairs where r: "covgc_time logdet_cov x 7 2 9 = Inr (gc, pairs)" by blast
  note t = covgc_time_finite_nonneg [where logdet = logdet_cov and x = x and dt = 7 and lag = 2
      and ?t0.0 = 9 and gc = gc and pairs = pairs, THEN conjunct1, rule_format, OF r]
  have tp: "triu_pairs (nrows x) 1 = [(0, 1)]" unfolding x_def by code_simp
  have p: "pairs = [(0, 1)]" using t [THEN conjunct1] tp by simp
  have sh: "shape gc = [1, 3]"
    using t [THEN conjunct2, THEN conjunct2, THEN conjunct1] p by simp
  have wf: "wf_array gc"
    using t [THEN conjunct2, THEN conjunct2, THEN conjunct2, THEN conjunct1] .
  have len: "length (data gc) = 3" using wf sh by (simp add: wf_array_def)
  have fn: "list_all finite_nonneg (data gc)"
    using t [THEN conjunct2, THEN conjunct2, THEN conjunct2, THEN conjunct2, THEN conjunct1]
    unfolding list_all_iff .
  have "0 < length pairs" using p by simp
  from t [THEN conjunct2, THEN conjunct2, THEN conjunct2, THEN conjunct2, THEN conjunct2,
      rule_format, OF this]
  have e: "\<exists>z. get2 gc 0 0 = magnitude_or_zero z" by blast
  show ?thesis
    using r p sh len fn e unfolding x_def by blast
qed

section \<open>Objects, storage and the effects of the operations\<close>

text \<open>
  The arrays, tables and lists of a program live in a store: an address holds one
  object, and \<open>lim\<close> is the first address not yet in use.  An array owns its elements,
  except a column view \<^verbatim>\<open>a[:, k]\<close>, which is an object of its own that reads the elements of
  the array at its base address.  Two names share storage when they hold one address or
  when one holds a view of the other.
\<close>

type_synonym addr = nat

datatype 'a obj =
    Array "'a marray"
  | IntArray "int ndarray"
  | BoolArray "bool ndarray"
  | FloatArray "fl marray"
  | ComplexArray "cfl ndarray"
  | IndexArray "nat list"
  | PairArray "(nat \<times> nat) list"
  | ColumnView addr nat
  | Table "'a table"
  | NameList "string list"
  | LabelList "'a key list"

record 'a store =
  objects :: "addr \<Rightarrow> 'a obj option"
  lim :: addr

text \<open>
  A statement or a call runs from a store and ends by an exception or by a value, in a
  store.  \<open>bind_h\<close> runs one after the other; an exception ends the run.  \<open>new_h\<close> is any
  expression that builds a new array or list, \<open>write_h\<close> any assignment into an existing
  one, \<open>lift_h\<close> a computation on values that may raise.
\<close>

type_synonym ('a, 'r) heap_op = "'a store \<Rightarrow> (error + 'r) \<times> 'a store"















text \<open>
  The frame of a run from the store \<open>s0\<close> that may write into the objects at the
  addresses \<open>W\<close>.  \<open>extends W s0 s\<close>: the store \<open>s\<close> holds every object of \<open>s0\<close> outside \<open>W\<close> as it
  was, and every object made since is a view of nothing older than \<open>s0\<close>.
  \<open>local W s0 F m A\<close>: from any such store in which the addresses \<open>F\<close> are new, \<open>m\<close> ends in
  such a store, and the addresses \<open>A v\<close> of its value \<open>v\<close> are new.
\<close>

definition extends :: "addr set \<Rightarrow> 'a store \<Rightarrow> 'a store \<Rightarrow> bool" where
  "extends W s0 s =
     (lim s0 \<le> lim s \<and> (\<forall>a < lim s0. a \<notin> W \<longrightarrow> objects s a = objects s0 a) \<and>
      (\<forall>a. lim s0 \<le> a \<and> a < lim s \<longrightarrow>
         (\<exists>v. objects s a = Some v \<and> (\<forall>b k. v = ColumnView b k \<longrightarrow> lim s0 \<le> b))))"

definition local ::
  "addr set \<Rightarrow> 'a store \<Rightarrow> addr set \<Rightarrow> ('a, 'r) heap_op \<Rightarrow> ('r \<Rightarrow> addr set) \<Rightarrow> bool" where
  "local W s0 F m A =
     (\<forall>s. extends W s0 s \<and> F \<subseteq> {lim s0..<lim s} \<longrightarrow>
        (case m s of (r, s') \<Rightarrow>
           extends W s0 s' \<and> lim s \<le> lim s' \<and> (\<forall>v. r = Inr v \<longrightarrow> A v \<subseteq> {lim s0..<lim s'})))"
















lemma local_weaken:
  assumes "local W s0 F m A" and "\<And>v. B v \<subseteq> A v"
  shows "local W s0 F m B"
  unfolding local_def
proof (intro allI impI)
  fix s assume h: "extends W s0 s \<and> F \<subseteq> {lim s0..<lim s}"
  obtain r s1 where m: "m s = (r, s1)" by (cases "m s")
  from assms(1) [unfolded local_def, rule_format, OF h] m
  have 1: "extends W s0 s1" "lim s \<le> lim s1" "\<forall>v. r = Inr v \<longrightarrow> A v \<subseteq> {lim s0..<lim s1}"
    by simp_all
  have "\<forall>v. r = Inr v \<longrightarrow> B v \<subseteq> {lim s0..<lim s1}" using 1(3) assms(2) by blast
  then show "case m s of (r, s') \<Rightarrow>
           extends W s0 s' \<and> lim s \<le> lim s' \<and> (\<forall>v. r = Inr v \<longrightarrow> B v \<subseteq> {lim s0..<lim s'})"
    using m 1 by simp
qed










subsection \<open>\<^verbatim>\<open>get_pairs\<close>\<close>















subsection \<open>\<^verbatim>\<open>ravel_connect\<close> and \<^verbatim>\<open>unravel_connect\<close>\<close>





subsection \<open>\<^verbatim>\<open>symmetrize\<close>\<close>





subsection \<open>\<^verbatim>\<open>remove_site_contact\<close>\<close>






subsection \<open>\<^verbatim>\<open>anat_based_reorder\<close>\<close>



subsection \<open>\<^verbatim>\<open>concat_connect\<close>\<close>




subsection \<open>\<^verbatim>\<open>covgc_time\<close>\<close>




















subsection \<open>\<^verbatim>\<open>anat_based_mean\<close>\<close>























end
